theory Spec2Isabelle
  imports Complex_Main "HOL-Library.Word"
begin

section \<open>Errors, panics and the clock\<close>

text \<open>
  Go errors are values. The program builds its own with \<open>fmt.Errorf\<close>, around errors of
  the libraries it calls (\<open>database/sql\<close>, \<open>net/http\<close>, \<open>encoding/json\<close>,
  \<open>strconv\<close>). \<open>RetryExhausted n e\<close> is the error of \<open>retryWithBackoff\<close>,
  "operation failed after n attempts. Last error: e"; \<open>Wrapped p e\<close> is
  \<open>fmt.Errorf(p + ": %v", e)\<close>.
\<close>

datatype err =
    LibErr string
  | ErrSyntax
  | ErrRange
  | RetryExhausted int "err option"
  | Wrapped string err

text \<open>A run-time panic: \<open>s[:n]\<close> with \<open>n\<close> beyond the length of \<open>s\<close>.\<close>

datatype panic = SliceBoundsOutOfRange nat nat

text \<open>\<open>time.Duration\<close> is a signed 64-bit count of nanoseconds; its arithmetic wraps.\<close>

type_synonym duration = "64 word"

record clock =
  slept :: "duration list"

definition time_Sleep :: "duration \<Rightarrow> 'a clock_scheme \<Rightarrow> 'a clock_scheme" where
  "time_Sleep d w = w\<lparr>slept := slept w @ [d]\<rparr>"

section \<open>utils.go\<close>

text \<open>
  \<open>retryWithBackoff\<close>: the loop \<open>for i := 0; i < maxRetries; i++\<close>. The operation is a
  closure over the state of the program, so it takes the state and returns the new one with
  its error (\<open>None\<close> is \<open>nil\<close>). \<open>1 << uint(i)\<close> is a shift in \<open>time.Duration\<close>, and
  the sleep follows every failed attempt, the last one too. The log line is not modelled.
\<close>

function retry_loop ::
  "int \<Rightarrow> duration \<Rightarrow> ('a clock_scheme \<Rightarrow> err option \<times> 'a clock_scheme) \<Rightarrow>
   int \<Rightarrow> err option \<Rightarrow> 'a clock_scheme \<Rightarrow> err option \<times> 'a clock_scheme" where
  "retry_loop maxRetries retryDelay operation i lastErr w =
     (if i < maxRetries then
        (case operation w of
           (Some e, w') \<Rightarrow>
             retry_loop maxRetries retryDelay operation (i + 1) (Some e)
               (time_Sleep (retryDelay * push_bit (nat i) 1) w')
         | (None, w') \<Rightarrow> (None, w'))
      else (Some (RetryExhausted maxRetries lastErr), w))"
  by pat_completeness auto
termination
  by (relation "measure (\<lambda>(m, d, operation, i, e, w). nat (m - i))") auto

definition retryWithBackoff ::
  "int \<Rightarrow> duration \<Rightarrow> ('a clock_scheme \<Rightarrow> err option \<times> 'a clock_scheme) \<Rightarrow>
   'a clock_scheme \<Rightarrow> err option \<times> 'a clock_scheme" where
  "retryWithBackoff maxRetries retryDelay operation w =
     retry_loop maxRetries retryDelay operation 0 None w"

definition constructAuthorPerm :: "string \<Rightarrow> string \<Rightarrow> string" where
  "constructAuthorPerm author permlink = ''@'' @ author @ ''/'' @ permlink"



section \<open>config.go\<close>

record Config =
  HiveAPIURL :: string
  GenesisBlock :: int
  BatchSize :: int
  DBPath :: string
  MaxRetries :: int
  RetryDelay :: duration

definition DefaultConfig :: Config where
  "DefaultConfig =
     \<lparr>HiveAPIURL = ''https://api.hive.blog'',
      GenesisBlock = 41818753,
      BatchSize = 1000,
      DBPath = ''blocks.db'',
      MaxRetries = 3,
      RetryDelay = 1000000000 * 2\<rparr>"

section \<open>strconv.ParseInt and slicing\<close>

text \<open>
  \<open>s[:n]\<close> on a Go string: the first \<open>n\<close> bytes, and a panic when the string is shorter.
\<close>

definition slice_to :: "nat \<Rightarrow> string \<Rightarrow> panic + string" where
  "slice_to n s =
     (if n \<le> length s then Inr (take n s) else Inl (SliceBoundsOutOfRange n (length s)))"

text \<open>
  The digit loop of \<open>strconv.ParseUint\<close> for an explicit base from 2 to 36 (base 0, with
  its prefixes and underscores, is not used by this program): \<open>lower c\<close> is \<open>c | 0x20\<close>,
  a byte that is no digit of the base is a syntax error, a value beyond \<open>maxVal\<close> is a
  range error at the digit that exceeds it.
\<close>

definition digit_val :: "char \<Rightarrow> int option" where
  "digit_val c =
     (let n = (of_char c :: int);
          l = (if (n div 32) mod 2 = 0 then n + 32 else n)
      in if 48 \<le> n \<and> n \<le> 57 then Some (n - 48)
         else if 97 \<le> l \<and> l \<le> 122 then Some (l - 97 + 10)
         else None)"

fun parse_digits :: "int \<Rightarrow> int \<Rightarrow> int \<Rightarrow> string \<Rightarrow> int \<times> err option" where
  "parse_digits base maxVal n [] = (n, None)"
| "parse_digits base maxVal n (c # cs) =
     (case digit_val c of
        None \<Rightarrow> (0, Some ErrSyntax)
      | Some d \<Rightarrow>
          if d \<ge> base then (0, Some ErrSyntax)
          else if n \<ge> (2 ^ 64 - 1) div base + 1 then (maxVal, Some ErrRange)
          else if n * base + d > maxVal then (maxVal, Some ErrRange)
          else parse_digits base maxVal (n * base + d) cs)"

definition ParseUint :: "string \<Rightarrow> int \<Rightarrow> nat \<Rightarrow> int \<times> err option" where
  "ParseUint s base bitSize =
     (if s = [] then (0, Some ErrSyntax) else parse_digits base (2 ^ bitSize - 1) 0 s)"

text \<open>
  \<open>strconv.ParseInt\<close>: an optional sign, the unsigned value, then the range of a signed
  integer of \<open>bitSize\<close> bits.
\<close>

definition ParseInt :: "string \<Rightarrow> int \<Rightarrow> nat \<Rightarrow> int \<times> err option" where
  "ParseInt s base bitSize =
     (if s = [] then (0, Some ErrSyntax)
      else
        (let neg = (hd s = CHR ''-'');
             s' = (if hd s = CHR ''+'' \<or> hd s = CHR ''-'' then tl s else s);
             (un, e) = ParseUint s' base bitSize;
             cutoff = (2 :: int) ^ (bitSize - 1)
         in if e = Some ErrSyntax then (0, e)
            else if \<not> neg \<and> un \<ge> cutoff then (cutoff - 1, Some ErrRange)
            else if neg \<and> un > cutoff then (- cutoff, Some ErrRange)
            else (if neg then - un else un, None)))"

section \<open>blockchain.go\<close>

record OperationValue =
  Author :: string
  Title :: string
  Permlink :: string
  ParentAuthor :: string
  JsonMetadata :: string

record Operation =
  Type :: string
  Value :: OperationValue

record Transaction =
  Operations :: "Operation list"

record Block =
  BlockNum :: string
  Timestamp :: string
  Transactions :: "Transaction list"

section \<open>The world outside the program\<close>

text \<open>
  The SQLite file: the table \<open>posts\<close> when it exists, with the names of its columns, its
  rows (each a binding of column names to values) and the last \<open>AUTOINCREMENT\<close> key.
  \<open>exec_log\<close> keeps the values of every execution of the prepared insert and
  \<open>requests\<close> the arguments of every \<open>getBlockRange\<close> call, in order.
\<close>

datatype sqlval = SNull | SInt int | SText string

type_synonym row = "(string \<times> sqlval) list"

record table =
  columns :: "string list"
  rows :: "row list"
  last_id :: int

record world = clock +
  posts :: "table option"
  db_calls :: nat
  exec_log :: "sqlval list list"
  net_calls :: nat
  requests :: "(int \<times> int) list"

text \<open>
  What the program cannot decide: whether the \<open>k\<close>-th database call fails for a reason
  of its own (I/O, a locked file), and what the chain's API answers to the \<open>k\<close>-th
  network call.
\<close>

record env =
  db_fails :: "nat \<Rightarrow> bool"
  head_block :: "nat \<Rightarrow> err + int"
  block_range :: "nat \<Rightarrow> int \<Rightarrow> int \<Rightarrow> err + Block list"

section \<open>The Go libraries of the tag normalization\<close>

text \<open>
  The tag normalization calls \<open>json.Unmarshal\<close>, \<open>json.Marshal\<close> and the verb \<open>%q\<close> of
  \<open>fmt\<close>. They are modelled as the standard library of Go 1.22 has them.
\<close>

subsection \<open>unicode/utf8 and unicode/utf16\<close>

text \<open>
  A Go string is a sequence of bytes, here a list of 8-bit characters; a rune is a
  number. \<open>DecodeRune\<close> gives the first rune of a byte sequence and its width, and
  \<open>(RuneError, 1)\<close> for a byte that begins no well-formed encoding; \<open>EncodeRune\<close>
  writes the encoding of a rune, that of \<open>RuneError\<close> for a surrogate or a number above
  \<open>0x10FFFF\<close>. The masks of the Go code are written as remainders.
\<close>

definition RuneError :: nat where
  "RuneError = 0xFFFD"

definition DecodeRune :: "string \<Rightarrow> nat \<times> nat" where
  "DecodeRune p =
     (case p of
        [] \<Rightarrow> (RuneError, 0)
      | c0 # p' \<Rightarrow>
          (let p0 = (of_char c0 :: nat) in
           if p0 < 0x80 then (p0, 1)
           else if p0 < 0xC2 \<or> 0xF4 < p0 then (RuneError, 1)
           else
             (let sz = (if p0 < 0xE0 then 2 else if p0 < 0xF0 then 3 else (4 :: nat));
                  lo = (if p0 = 0xE0 then 0xA0 else if p0 = 0xF0 then 0x90 else (0x80 :: nat));
                  hi = (if p0 = 0xED then 0x9F else if p0 = 0xF4 then 0x8F else (0xBF :: nat))
              in if length p < sz then (RuneError, 1)
                 else
                   (let b1 = (of_char (p ! 1) :: nat) in
                    if b1 < lo \<or> hi < b1 then (RuneError, 1)
                    else if sz \<le> 2 then (p0 mod 0x20 * 0x40 + b1 mod 0x40, 2)
                    else
                      (let b2 = (of_char (p ! 2) :: nat) in
                       if b2 < 0x80 \<or> 0xBF < b2 then (RuneError, 1)
                       else if sz \<le> 3 then
                         (p0 mod 0x10 * 0x1000 + b1 mod 0x40 * 0x40 + b2 mod 0x40, 3)
                       else
                         (let b3 = (of_char (p ! 3) :: nat) in
                          if b3 < 0x80 \<or> 0xBF < b3 then (RuneError, 1)
                          else (p0 mod 8 * 0x40000 + b1 mod 0x40 * 0x1000 + b2 mod 0x40 * 0x40 +
                                b3 mod 0x40, 4)))))))"

definition EncodeRune :: "nat \<Rightarrow> string" where
  "EncodeRune r =
     (if r \<le> 0x7F then [char_of r]
      else if r \<le> 0x7FF then [char_of (0xC0 + r div 0x40), char_of (0x80 + r mod 0x40)]
      else if 0x10FFFF < r \<or> (0xD800 \<le> r \<and> r \<le> 0xDFFF) then
        [char_of (0xEF :: nat), char_of (0xBF :: nat), char_of (0xBD :: nat)]
      else if r \<le> 0xFFFF then
        [char_of (0xE0 + r div 0x1000), char_of (0x80 + r div 0x40 mod 0x40),
         char_of (0x80 + r mod 0x40)]
      else
        [char_of (0xF0 + r div 0x40000), char_of (0x80 + r div 0x1000 mod 0x40),
         char_of (0x80 + r div 0x40 mod 0x40), char_of (0x80 + r mod 0x40)])"

text \<open>\<open>utf16.IsSurrogate\<close> and \<open>utf16.DecodeRune\<close>; \<open>None\<close> is the \<open>-1\<close> of \<open>getu4\<close>.\<close>

definition IsSurrogate :: "nat \<Rightarrow> bool" where
  "IsSurrogate r = (0xD800 \<le> r \<and> r < 0xE000)"

definition utf16_DecodeRune :: "nat \<Rightarrow> nat option \<Rightarrow> nat" where
  "utf16_DecodeRune r1 r2' =
     (case r2' of
        None \<Rightarrow> RuneError
      | Some r2 \<Rightarrow>
          if 0xD800 \<le> r1 \<and> r1 < 0xDC00 \<and> 0xDC00 \<le> r2 \<and> r2 < 0xE000
          then (r1 - 0xD800) * 0x400 + (r2 - 0xDC00) + 0x10000
          else RuneError)"

subsection \<open>strconv.Quote, the verb %q of fmt\<close>

text \<open>
  What the libraries take from tables of their own version is a parameter:
  \<open>IsPrint_table\<close> is \<open>strconv.IsPrint\<close> on the runes above \<open>0xFF\<close> (the Unicode
  tables), \<open>FormatFloat\<close> is the text \<open>json.Marshal\<close> writes for the \<open>float64\<close> that
  \<open>strconv.ParseFloat\<close> reads from a number literal.
\<close>

record golib =
  IsPrint_table :: "nat \<Rightarrow> bool"
  FormatFloat :: "string \<Rightarrow> string"

definition IsPrint :: "golib \<Rightarrow> nat \<Rightarrow> bool" where
  "IsPrint lib r =
     (if r \<le> 0xFF then
        (if 0x20 \<le> r \<and> r \<le> 0x7E then True
         else if 0xA1 \<le> r \<and> r \<le> 0xFF then r \<noteq> 0xAD
         else False)
      else IsPrint_table lib r)"

definition lowerhex :: "nat \<Rightarrow> char" where
  "lowerhex n = ''0123456789abcdef'' ! (n mod 16)"

definition backslash :: char where
  "backslash = CHR 0x5C"

definition dquote :: char where
  "dquote = CHR 0x22"

definition appendEscapedRune :: "golib \<Rightarrow> nat \<Rightarrow> string" where
  "appendEscapedRune lib r =
     (if r = of_char dquote \<or> r = of_char backslash then [backslash, char_of r]
      else if IsPrint lib r then EncodeRune r
      else if r = 7 then [backslash, CHR ''a'']
      else if r = 8 then [backslash, CHR ''b'']
      else if r = 12 then [backslash, CHR ''f'']
      else if r = 10 then [backslash, CHR ''n'']
      else if r = 13 then [backslash, CHR ''r'']
      else if r = 9 then [backslash, CHR ''t'']
      else if r = 11 then [backslash, CHR ''v'']
      else if r < 0x20 \<or> r = 0x7F then
        [backslash, CHR ''x'', lowerhex (r div 16), lowerhex r]
      else if r < 0x10000 then
        [backslash, CHR ''u'', lowerhex (r div 0x1000), lowerhex (r div 0x100),
         lowerhex (r div 0x10), lowerhex r]
      else
        [backslash, CHR ''U'', lowerhex (r div 0x10000000), lowerhex (r div 0x1000000),
         lowerhex (r div 0x100000), lowerhex (r div 0x10000), lowerhex (r div 0x1000),
         lowerhex (r div 0x100), lowerhex (r div 0x10), lowerhex r])"

text \<open>The loop of \<open>appendQuotedWith\<close>, between the two quotes.\<close>

fun quoted :: "golib \<Rightarrow> string \<Rightarrow> string" where
  "quoted lib [] = []"
| "quoted lib (c # s) =
     (let (r, width) = (if of_char c \<ge> (0x80 :: nat) then DecodeRune (c # s) else (of_char c, 1))
      in if width = 1 \<and> r = RuneError then
           [backslash, CHR ''x'', lowerhex (of_char c div 16), lowerhex (of_char c)] @
           quoted lib s
         else appendEscapedRune lib r @ quoted lib (drop (width - 1) s))"

definition Quote :: "golib \<Rightarrow> string \<Rightarrow> string" where
  "Quote lib s = [dquote] @ quoted lib s @ [dquote]"

subsection \<open>encoding/json: the scanner and the decoder\<close>

text \<open>
  The text of a JSON value as the decoder reads it: the members of an object in the order
  of the text, a number as its literal, a string unquoted.
\<close>

datatype json =
    JsNull
  | JsBool bool
  | JsNumber string
  | JsString string
  | JsArray "json list"
  | JsObject "(string \<times> json) list"

text \<open>
  \<open>getu4\<close> reads \<open>\uXXXX\<close> at the head of a text; \<open>unquoteBytes\<close> is the loop of the
  function of that name on the text between the two quotes of a string literal, \<open>None\<close>
  its \<open>ok = false\<close>.
\<close>

definition hexval :: "char \<Rightarrow> nat option" where
  "hexval c =
     (let n = (of_char c :: nat) in
      if 48 \<le> n \<and> n \<le> 57 then Some (n - 48)
      else if 97 \<le> n \<and> n \<le> 102 then Some (n - 97 + 10)
      else if 65 \<le> n \<and> n \<le> 70 then Some (n - 65 + 10)
      else None)"

definition getu4 :: "string \<Rightarrow> nat option" where
  "getu4 s =
     (case s of
        b # u # h1 # h2 # h3 # h4 # rest \<Rightarrow>
          if b = backslash \<and> u = CHR ''u'' then
            (case (hexval h1, hexval h2, hexval h3, hexval h4) of
               (Some d1, Some d2, Some d3, Some d4) \<Rightarrow> Some (((d1 * 16 + d2) * 16 + d3) * 16 + d4)
             | _ \<Rightarrow> None)
          else None
      | _ \<Rightarrow> None)"

fun unquoteBytes :: "string \<Rightarrow> string option" where
  "unquoteBytes [] = Some []"
| "unquoteBytes (c # s) =
     (if c = backslash then
        (case s of
           [] \<Rightarrow> None
         | e # s' \<Rightarrow>
             if e = dquote \<or> e = backslash \<or> e = CHR ''/'' \<or> e = CHR 0x27 then
               map_option ((#) e) (unquoteBytes s')
             else if e = CHR ''b'' then map_option ((#) (CHR 0x08)) (unquoteBytes s')
             else if e = CHR ''f'' then map_option ((#) (CHR 0x0C)) (unquoteBytes s')
             else if e = CHR ''n'' then map_option ((#) (CHR 0x0A)) (unquoteBytes s')
             else if e = CHR ''r'' then map_option ((#) (CHR 0x0D)) (unquoteBytes s')
             else if e = CHR ''t'' then map_option ((#) (CHR 0x09)) (unquoteBytes s')
             else if e = CHR ''u'' then
               (case getu4 (c # s) of
                  None \<Rightarrow> None
                | Some rr \<Rightarrow>
                    if IsSurrogate rr \<and>
                       utf16_DecodeRune rr (getu4 (drop 5 s)) \<noteq> RuneError
                    then map_option ((@) (EncodeRune (utf16_DecodeRune rr (getu4 (drop 5 s)))))
                           (unquoteBytes (drop 11 s))
                    else map_option ((@) (EncodeRune (if IsSurrogate rr then RuneError else rr)))
                           (unquoteBytes (drop 5 s)))
             else None)
      else if c = dquote \<or> of_char c < (0x20 :: nat) then None
      else if of_char c < (0x80 :: nat) then map_option ((#) c) (unquoteBytes s)
      else
        (let (rr, n) = DecodeRune (c # s)
         in map_option ((@) (EncodeRune rr)) (unquoteBytes (drop (n - 1) s))))"

text \<open>
  The scanner is a state machine fed one byte at a time. Its states are the step
  functions of \<open>scanner.go\<close>; a state inside a literal holds the bytes of the literal read
  so far, \<open>Lit\<close> stands for the states of \<open>true\<close>, \<open>false\<close> and \<open>null\<close> with the bytes
  still expected, \<open>EndValue\<close> and \<open>EndTop\<close> hold the value that has just ended. The
  entries of \<open>parseState\<close> hold what the decoder has read of the object or array they
  stand for. \<open>OutOfSync\<close> is the decoder's panic "JSON decoder out of sync".
\<close>

datatype scan_state =
    BeginValue
  | BeginValueOrEmpty
  | BeginStringOrEmpty
  | BeginString
  | InString string
  | InStringEsc string
  | InStringEscU nat string
  | Neg string
  | St0 string
  | St1 string
  | Dot string
  | Dot0 string
  | StE string
  | ESign string
  | E0 string
  | Lit string json
  | EndValue json
  | EndTop json
  | StateError
  | OutOfSync

datatype frame =
    parseObjectKey "(string \<times> json) list"
  | parseObjectValue "(string \<times> json) list" string
  | parseArrayValue "json list"

record scanner =
  step :: scan_state
  parseState :: "frame list"

definition maxNestingDepth :: nat where
  "maxNestingDepth = 10000"

definition isSpace :: "char \<Rightarrow> bool" where
  "isSpace c = (c = CHR '' '' \<or> c = CHR 0x09 \<or> c = CHR 0x0D \<or> c = CHR 0x0A)"

definition isDigit :: "char \<Rightarrow> bool" where
  "isDigit c = (48 \<le> (of_char c :: nat) \<and> (of_char c :: nat) \<le> 57)"

definition scan_error :: "scanner \<Rightarrow> scanner" where
  "scan_error s = s\<lparr>step := StateError\<rparr>"

definition pushParseState :: "scanner \<Rightarrow> frame \<Rightarrow> scan_state \<Rightarrow> scanner" where
  "pushParseState s newParseState successState =
     (if length (newParseState # parseState s) \<le> maxNestingDepth
      then s\<lparr>step := successState, parseState := newParseState # parseState s\<rparr>
      else scan_error (s\<lparr>parseState := newParseState # parseState s\<rparr>))"

text \<open>\<open>popParseState\<close>, with the value that ends there.\<close>

definition popParseState :: "scanner \<Rightarrow> json \<Rightarrow> scanner" where
  "popParseState s v =
     (let ps = tl (parseState s)
      in if ps = [] then s\<lparr>step := EndTop v, parseState := ps\<rparr>
         else s\<lparr>step := EndValue v, parseState := ps\<rparr>)"

definition stateEndTop :: "scanner \<Rightarrow> char \<Rightarrow> scanner" where
  "stateEndTop s c = (if \<not> isSpace c then scan_error s else s)"

definition stateEndValue :: "scanner \<Rightarrow> json \<Rightarrow> char \<Rightarrow> scanner" where
  "stateEndValue s v c =
     (case parseState s of
        [] \<Rightarrow> stateEndTop (s\<lparr>step := EndTop v\<rparr>) c
      | ps # rest \<Rightarrow>
          if isSpace c then s\<lparr>step := EndValue v\<rparr>
          else
            (case ps of
               parseObjectKey ms \<Rightarrow>
                 if c = CHR '':'' then
                   (case v of
                      JsString key \<Rightarrow>
                        s\<lparr>step := BeginValue, parseState := parseObjectValue ms key # rest\<rparr>
                    | _ \<Rightarrow> s\<lparr>step := OutOfSync\<rparr>)
                 else scan_error s
             | parseObjectValue ms key \<Rightarrow>
                 if c = CHR '','' then
                   s\<lparr>step := BeginString, parseState := parseObjectKey (ms @ [(key, v)]) # rest\<rparr>
                 else if c = CHR ''}'' then popParseState s (JsObject (ms @ [(key, v)]))
                 else scan_error s
             | parseArrayValue vs \<Rightarrow>
                 if c = CHR '','' then
                   s\<lparr>step := BeginValue, parseState := parseArrayValue (vs @ [v]) # rest\<rparr>
                 else if c = CHR '']'' then popParseState s (JsArray (vs @ [v]))
                 else scan_error s))"

definition stateBeginValue :: "scanner \<Rightarrow> char \<Rightarrow> scanner" where
  "stateBeginValue s c =
     (if isSpace c then s
      else if c = CHR ''{'' then pushParseState s (parseObjectKey []) BeginStringOrEmpty
      else if c = CHR ''['' then pushParseState s (parseArrayValue []) BeginValueOrEmpty
      else if c = dquote then s\<lparr>step := InString []\<rparr>
      else if c = CHR ''-'' then s\<lparr>step := Neg [c]\<rparr>
      else if c = CHR ''0'' then s\<lparr>step := St0 [c]\<rparr>
      else if c = CHR ''t'' then s\<lparr>step := Lit ''rue'' (JsBool True)\<rparr>
      else if c = CHR ''f'' then s\<lparr>step := Lit ''alse'' (JsBool False)\<rparr>
      else if c = CHR ''n'' then s\<lparr>step := Lit ''ull'' JsNull\<rparr>
      else if isDigit c then s\<lparr>step := St1 [c]\<rparr>
      else scan_error s)"

definition stateBeginValueOrEmpty :: "scanner \<Rightarrow> char \<Rightarrow> scanner" where
  "stateBeginValueOrEmpty s c =
     (if isSpace c then s
      else if c = CHR '']'' then
        (case parseState s of
           parseArrayValue vs # rest \<Rightarrow> popParseState s (JsArray vs)
         | _ \<Rightarrow> s\<lparr>step := OutOfSync\<rparr>)
      else stateBeginValue s c)"

definition stateBeginString :: "scanner \<Rightarrow> char \<Rightarrow> scanner" where
  "stateBeginString s c =
     (if isSpace c then s
      else if c = dquote then s\<lparr>step := InString []\<rparr>
      else scan_error s)"

definition stateBeginStringOrEmpty :: "scanner \<Rightarrow> char \<Rightarrow> scanner" where
  "stateBeginStringOrEmpty s c =
     (if isSpace c then s
      else if c = CHR ''}'' then
        (case parseState s of
           parseObjectKey ms # rest \<Rightarrow> popParseState s (JsObject ms)
         | _ \<Rightarrow> s\<lparr>step := OutOfSync\<rparr>)
      else stateBeginString s c)"

definition stateInString :: "scanner \<Rightarrow> string \<Rightarrow> char \<Rightarrow> scanner" where
  "stateInString s lit c =
     (if c = dquote then
        (case unquoteBytes lit of
           Some t \<Rightarrow> s\<lparr>step := EndValue (JsString t)\<rparr>
         | None \<Rightarrow> s\<lparr>step := OutOfSync\<rparr>)
      else if c = backslash then s\<lparr>step := InStringEsc (lit @ [c])\<rparr>
      else if of_char c < (0x20 :: nat) then scan_error s
      else s\<lparr>step := InString (lit @ [c])\<rparr>)"

definition stateInStringEsc :: "scanner \<Rightarrow> string \<Rightarrow> char \<Rightarrow> scanner" where
  "stateInStringEsc s lit c =
     (if c = CHR ''b'' \<or> c = CHR ''f'' \<or> c = CHR ''n'' \<or> c = CHR ''r'' \<or> c = CHR ''t'' \<or>
         c = backslash \<or> c = CHR ''/'' \<or> c = dquote
      then s\<lparr>step := InString (lit @ [c])\<rparr>
      else if c = CHR ''u'' then s\<lparr>step := InStringEscU 0 (lit @ [c])\<rparr>
      else scan_error s)"

definition stateInStringEscU :: "scanner \<Rightarrow> nat \<Rightarrow> string \<Rightarrow> char \<Rightarrow> scanner" where
  "stateInStringEscU s n lit c =
     (if hexval c \<noteq> None then
        (if n < 3 then s\<lparr>step := InStringEscU (n + 1) (lit @ [c])\<rparr>
         else s\<lparr>step := InString (lit @ [c])\<rparr>)
      else scan_error s)"

definition stateNeg :: "scanner \<Rightarrow> string \<Rightarrow> char \<Rightarrow> scanner" where
  "stateNeg s lit c =
     (if c = CHR ''0'' then s\<lparr>step := St0 (lit @ [c])\<rparr>
      else if isDigit c then s\<lparr>step := St1 (lit @ [c])\<rparr>
      else scan_error s)"

definition state0 :: "scanner \<Rightarrow> string \<Rightarrow> char \<Rightarrow> scanner" where
  "state0 s lit c =
     (if c = CHR ''.'' then s\<lparr>step := Dot (lit @ [c])\<rparr>
      else if c = CHR ''e'' \<or> c = CHR ''E'' then s\<lparr>step := StE (lit @ [c])\<rparr>
      else stateEndValue s (JsNumber lit) c)"

definition state1 :: "scanner \<Rightarrow> string \<Rightarrow> char \<Rightarrow> scanner" where
  "state1 s lit c =
     (if isDigit c then s\<lparr>step := St1 (lit @ [c])\<rparr> else state0 s lit c)"

definition stateDot :: "scanner \<Rightarrow> string \<Rightarrow> char \<Rightarrow> scanner" where
  "stateDot s lit c =
     (if isDigit c then s\<lparr>step := Dot0 (lit @ [c])\<rparr> else scan_error s)"

definition stateDot0 :: "scanner \<Rightarrow> string \<Rightarrow> char \<Rightarrow> scanner" where
  "stateDot0 s lit c =
     (if isDigit c then s\<lparr>step := Dot0 (lit @ [c])\<rparr>
      else if c = CHR ''e'' \<or> c = CHR ''E'' then s\<lparr>step := StE (lit @ [c])\<rparr>
      else stateEndValue s (JsNumber lit) c)"

definition stateESign :: "scanner \<Rightarrow> string \<Rightarrow> char \<Rightarrow> scanner" where
  "stateESign s lit c =
     (if isDigit c then s\<lparr>step := E0 (lit @ [c])\<rparr> else scan_error s)"

definition stateE :: "scanner \<Rightarrow> string \<Rightarrow> char \<Rightarrow> scanner" where
  "stateE s lit c =
     (if c = CHR ''+'' \<or> c = CHR ''-'' then s\<lparr>step := ESign (lit @ [c])\<rparr>
      else stateESign s lit c)"

definition stateE0 :: "scanner \<Rightarrow> string \<Rightarrow> char \<Rightarrow> scanner" where
  "stateE0 s lit c =
     (if isDigit c then s\<lparr>step := E0 (lit @ [c])\<rparr>
      else stateEndValue s (JsNumber lit) c)"

definition stateLit :: "scanner \<Rightarrow> string \<Rightarrow> json \<Rightarrow> char \<Rightarrow> scanner" where
  "stateLit s expected v c =
     (case expected of
        [] \<Rightarrow> s\<lparr>step := OutOfSync\<rparr>
      | x # rest \<Rightarrow>
          if c = x then (if rest = [] then s\<lparr>step := EndValue v\<rparr> else s\<lparr>step := Lit rest v\<rparr>)
          else scan_error s)"

definition scan_step :: "scanner \<Rightarrow> char \<Rightarrow> scanner" where
  "scan_step s c =
     (case step s of
        BeginValue \<Rightarrow> stateBeginValue s c
      | BeginValueOrEmpty \<Rightarrow> stateBeginValueOrEmpty s c
      | BeginStringOrEmpty \<Rightarrow> stateBeginStringOrEmpty s c
      | BeginString \<Rightarrow> stateBeginString s c
      | InString lit \<Rightarrow> stateInString s lit c
      | InStringEsc lit \<Rightarrow> stateInStringEsc s lit c
      | InStringEscU n lit \<Rightarrow> stateInStringEscU s n lit c
      | Neg lit \<Rightarrow> stateNeg s lit c
      | St0 lit \<Rightarrow> state0 s lit c
      | St1 lit \<Rightarrow> state1 s lit c
      | Dot lit \<Rightarrow> stateDot s lit c
      | Dot0 lit \<Rightarrow> stateDot0 s lit c
      | StE lit \<Rightarrow> stateE s lit c
      | ESign lit \<Rightarrow> stateESign s lit c
      | E0 lit \<Rightarrow> stateE0 s lit c
      | Lit expected v \<Rightarrow> stateLit s expected v c
      | EndValue v \<Rightarrow> stateEndValue s v c
      | EndTop v \<Rightarrow> stateEndTop s c
      | StateError \<Rightarrow> s
      | OutOfSync \<Rightarrow> s)"

definition scan_reset :: scanner where
  "scan_reset = \<lparr>step = BeginValue, parseState = []\<rparr>"

text \<open>
  \<open>checkValid\<close> and the reading of the value in one pass over the text. At the end of
  the text \<open>eof\<close> feeds the scanner a space.
\<close>

definition scan_eof :: "scanner \<Rightarrow> scan_state" where
  "scan_eof s =
     (case step s of
        StateError \<Rightarrow> StateError
      | OutOfSync \<Rightarrow> OutOfSync
      | EndTop v \<Rightarrow> EndTop v
      | _ \<Rightarrow>
          (case step (scan_step s (CHR '' '')) of
             EndTop v \<Rightarrow> EndTop v
           | OutOfSync \<Rightarrow> OutOfSync
           | _ \<Rightarrow> StateError))"

definition scan :: "string \<Rightarrow> scan_state" where
  "scan data = scan_eof (foldl scan_step scan_reset data)"


text \<open>
  \<open>strconv.ParseFloat\<close> on a number literal gives a range error when the number is
  at or above \<open>2 ^ 1024 - 2 ^ 970\<close>, half-way between the greatest \<open>float64\<close> and
  \<open>2 ^ 1024\<close>. It reads an exponent up to its fifth digit.
\<close>

definition float64_limit :: int where
  "float64_limit = 2 ^ 1024 - 2 ^ 970"

definition digits_value :: "string \<Rightarrow> int" where
  "digits_value ds = foldl (\<lambda>n c. n * 10 + (int (of_char c) - 48)) 0 ds"

definition exponent_value :: "string \<Rightarrow> int" where
  "exponent_value ds =
     foldl (\<lambda>e c. if e < 10000 then e * 10 + (int (of_char c) - 48) else e) 0 ds"

definition ParseFloat_ErrRange :: "string \<Rightarrow> bool" where
  "ParseFloat_ErrRange lit =
     (let s = (case lit of c # r \<Rightarrow> if c = CHR ''-'' then r else lit | [] \<Rightarrow> lit);
          ip = takeWhile isDigit s;
          s1 = dropWhile isDigit s;
          fp = (case s1 of c # r \<Rightarrow> if c = CHR ''.'' then takeWhile isDigit r else [] | [] \<Rightarrow> []);
          s2 = (case s1 of c # r \<Rightarrow> if c = CHR ''.'' then dropWhile isDigit r else s1 | [] \<Rightarrow> s1);
          e = (case s2 of
                 [] \<Rightarrow> 0
               | x # s3 \<Rightarrow>
                   (case s3 of
                      [] \<Rightarrow> 0
                    | sg # ds \<Rightarrow>
                        if sg = CHR ''-'' then - exponent_value ds
                        else if sg = CHR ''+'' then exponent_value ds
                        else exponent_value s3));
          m = digits_value (ip @ fp);
          k = e - int (length fp)
      in m \<noteq> 0 \<and>
         (if 0 \<le> k then float64_limit \<le> m * 10 ^ nat k
          else float64_limit * 10 ^ nat (- k) \<le> m))"

text \<open>
  The values \<open>encoding/json\<close> stores in an \<open>interface{}\<close>: \<open>nil\<close>, \<open>bool\<close>,
  \<open>float64\<close> (held as the literal it was read from), \<open>string\<close>, \<open>[]interface{}\<close> and
  \<open>map[string]interface{}\<close> (one entry for a key, the last one of the text).
\<close>

datatype jvalue =
    JNil
  | JBool bool
  | JFloat64 string
  | JString string
  | JSlice "jvalue list"
  | JMap "(string \<times> jvalue) list"

fun map_store :: "(string \<times> 'a) list \<Rightarrow> string \<Rightarrow> 'a \<Rightarrow> (string \<times> 'a) list" where
  "map_store [] k v = [(k, v)]"
| "map_store ((k', v') # m) k v = (if k' = k then (k, v) # m else (k', v') # map_store m k v)"

primrec valueInterface :: "json \<Rightarrow> jvalue" where
  "valueInterface JsNull = JNil"
| "valueInterface (JsBool b) = JBool b"
| "valueInterface (JsNumber lit) = JFloat64 lit"
| "valueInterface (JsString s) = JString s"
| "valueInterface (JsArray vs) = JSlice (map valueInterface vs)"
| "valueInterface (JsObject ms) =
     JMap (foldl (\<lambda>m kv. map_store m (fst kv) (snd kv)) [] (map (map_prod id valueInterface) ms))"

text \<open>Whether \<open>convertNumber\<close> fails on a number of the value.\<close>

primrec range_error :: "json \<Rightarrow> bool" where
  "range_error JsNull = False"
| "range_error (JsBool b) = False"
| "range_error (JsNumber lit) = ParseFloat_ErrRange lit"
| "range_error (JsString s) = False"
| "range_error (JsArray vs) = list_ex id (map range_error vs)"
| "range_error (JsObject ms) = list_ex id (map (\<lambda>kv. snd kv) (map (map_prod id range_error) ms))"

text \<open>
  The names of a member that select the field \<open>Tags\<close>, tagged \<open>json:"tags"\<close>: the
  name itself and every name with the same case folding. Under \<open>unicode.SimpleFold\<close> the
  only runes outside ASCII with a letter of ASCII in their orbit are U+017F (with
  \<open>s\<close>) and U+212A (with \<open>k\<close>).
\<close>

fun runes :: "string \<Rightarrow> nat list" where
  "runes [] = []"
| "runes (c # s) = (let (r, n) = DecodeRune (c # s) in r # runes (drop (n - 1) s))"

definition foldRune :: "nat \<Rightarrow> nat option" where
  "foldRune r =
     (if 97 \<le> r \<and> r \<le> 122 then Some (r - 32)
      else if r < 0x80 then Some r
      else if r = 0x17F then Some 0x53
      else if r = 0x212A then Some 0x4B
      else None)"

definition field_Tags :: "string \<Rightarrow> bool" where
  "field_Tags key = (map foldRune (runes key) = map (\<lambda>c. Some (of_char c)) ''TAGS'')"

text \<open>
  \<open>json.Unmarshal(data, &metadata)\<close>, where \<open>metadata\<close> is a fresh struct with the
  one field \<open>Tags interface{}\<close>: the error, or the value it leaves in the field. An
  array, a string, a number or a boolean is no value for a struct; \<open>null\<close> leaves the
  struct as it is.
\<close>

definition Tags_values :: "(string \<times> json) list \<Rightarrow> json list" where
  "Tags_values ms = map snd (filter (\<lambda>kv. field_Tags (fst kv)) ms)"

definition json_Unmarshal :: "string \<Rightarrow> err + jvalue" where
  "json_Unmarshal data =
     (case scan data of
        EndTop v \<Rightarrow>
          (case v of
             JsObject ms \<Rightarrow>
               (let tagged = Tags_values ms
                in if list_ex range_error tagged
                   then Inl (LibErr ''json: cannot unmarshal number into Go value of type float64'')
                   else Inr (if tagged = [] then JNil else valueInterface (last tagged)))
           | JsNull \<Rightarrow> Inr JNil
           | _ \<Rightarrow> Inl (LibErr ''json: cannot unmarshal into Go value of type struct''))
      | OutOfSync \<Rightarrow> Inl (LibErr ''JSON decoder out of sync'')
      | _ \<Rightarrow> Inl (LibErr ''json: syntax error''))"

subsection \<open>encoding/json: the encoder\<close>

text \<open>
  \<open>appendString\<close> with \<open>escapeHTML\<close>, between the two quotes: \<open>json.Marshal\<close> escapes
  the quote, the backslash, the control characters, \<open><\<close>, \<open>>\<close>, \<open>&\<close>, U+2028 and U+2029,
  and writes the escape of U+FFFD for a byte that is not UTF-8.
\<close>

definition json_hex :: "nat \<Rightarrow> char" where
  "json_hex n = ''0123456789abcdef'' ! (n mod 16)"

definition htmlSafeSet :: "char \<Rightarrow> bool" where
  "htmlSafeSet c =
     ((0x20 :: nat) \<le> of_char c \<and> of_char c < (0x80 :: nat) \<and> c \<noteq> dquote \<and> c \<noteq> CHR ''&'' \<and>
      c \<noteq> CHR ''<'' \<and> c \<noteq> CHR ''>'' \<and> c \<noteq> backslash)"

fun appendString :: "string \<Rightarrow> string" where
  "appendString [] = []"
| "appendString (c # s) =
     (if of_char c < (0x80 :: nat) then
        (if htmlSafeSet c then [c]
         else if c = backslash \<or> c = dquote then [backslash, c]
         else if c = CHR 0x08 then [backslash, CHR ''b'']
         else if c = CHR 0x0C then [backslash, CHR ''f'']
         else if c = CHR 0x0A then [backslash, CHR ''n'']
         else if c = CHR 0x0D then [backslash, CHR ''r'']
         else if c = CHR 0x09 then [backslash, CHR ''t'']
         else [backslash, CHR ''u'', CHR ''0'', CHR ''0'', json_hex (of_char c div 16), json_hex (of_char c)]) @
        appendString s
      else
        (let (r, n) = DecodeRune (c # s)
         in if r = RuneError \<and> n = 1 then
              [backslash, CHR ''u'', CHR ''f'', CHR ''f'', CHR ''f'', CHR ''d''] @ appendString s
            else if r = 0x2028 \<or> r = 0x2029 then
              [backslash, CHR ''u'', CHR ''2'', CHR ''0'', CHR ''2'', json_hex r] @
              appendString (drop (n - 1) s)
            else take n (c # s) @ appendString (drop (n - 1) s)))"

definition encode_string :: "string \<Rightarrow> string" where
  "encode_string s = [dquote] @ appendString s @ [dquote]"

fun string_less :: "string \<Rightarrow> string \<Rightarrow> bool" where
  "string_less [] [] = False"
| "string_less [] (y # ys) = True"
| "string_less (x # xs) [] = False"
| "string_less (x # xs) (y # ys) =
     ((of_char x :: nat) < of_char y \<or> (x = y \<and> string_less xs ys))"

fun insert_key :: "string \<times> 'a \<Rightarrow> (string \<times> 'a) list \<Rightarrow> (string \<times> 'a) list" where
  "insert_key kv [] = [kv]"
| "insert_key kv (kv' # m) =
     (if string_less (fst kv) (fst kv') then kv # kv' # m else kv' # insert_key kv m)"

definition sort_keys :: "(string \<times> 'a) list \<Rightarrow> (string \<times> 'a) list" where
  "sort_keys m = foldr insert_key m []"

fun commas :: "string list \<Rightarrow> string" where
  "commas [] = []"
| "commas [x] = x"
| "commas (x # y # xs) = x @ '','' @ commas (y # xs)"

text \<open>
  The encoders of \<open>json.Marshal\<close> for the values of an \<open>interface{}\<close>; the keys of a map
  are written in the order of their bytes.
\<close>

primrec encode :: "golib \<Rightarrow> jvalue \<Rightarrow> string" where
  "encode lib JNil = ''null''"
| "encode lib (JBool b) = (if b then ''true'' else ''false'')"
| "encode lib (JFloat64 lit) = FormatFloat lib lit"
| "encode lib (JString s) = encode_string s"
| "encode lib (JSlice vs) = ''['' @ commas (map (encode lib) vs) @ '']''"
| "encode lib (JMap m) =
     ''{'' @ commas (map (\<lambda>kv. encode_string (fst kv) @ '':'' @ snd kv)
                      (sort_keys (map (map_prod id (encode lib)) m))) @ ''}''"

text \<open>
  \<open>json.Marshal\<close> on a slice of such values. It gives an error for a value it has no
  encoding for (a channel, a function, an infinite or undefined number, a cycle); no
  value read from a text is one.
\<close>

definition json_Marshal :: "golib \<Rightarrow> jvalue list \<Rightarrow> err + string" where
  "json_Marshal lib v = Inr (encode lib (JSlice v))"

section \<open>database.go\<close>

text \<open>
  Every call into \<open>database/sql\<close> takes the next answer of \<open>db_fails\<close>.
\<close>

definition db_call :: "env \<Rightarrow> 'a world_scheme \<Rightarrow> bool \<times> 'a world_scheme" where
  "db_call env w = (db_fails env (db_calls w), w\<lparr>db_calls := db_calls w + 1\<rparr>)"

text \<open>The columns of \<open>CREATE TABLE IF NOT EXISTS posts\<close>, as \<open>initDB\<close> writes them.\<close>

definition createTableSQL_columns :: "string list" where
  "createTableSQL_columns =
     [''_id'', ''url'', ''author'', ''permlink'', ''title'', ''json_metadata'',
      ''block_num'', ''timestamp'']"

text \<open>
  \<open>initDB\<close>: \<open>sql.Open\<close>, then the \<open>CREATE TABLE IF NOT EXISTS\<close> (an existing table
  is left as it is). The handle it returns is the database of the world.
\<close>

definition initDB :: "env \<Rightarrow> 'a world_scheme \<Rightarrow> err option \<times> 'a world_scheme" where
  "initDB env w =
     (case db_call env w of
        (True, w1) \<Rightarrow> (Some (Wrapped ''error opening database'' (LibErr ''sql.Open'')), w1)
      | (False, w1) \<Rightarrow>
          (case db_call env w1 of
             (True, w2) \<Rightarrow> (Some (Wrapped ''error creating table'' (LibErr ''db.Exec'')), w2)
           | (False, w2) \<Rightarrow>
               (case posts w2 of
                  Some t \<Rightarrow> (None, w2)
                | None \<Rightarrow>
                    (None, w2\<lparr>posts :=
                       Some \<lparr>columns = createTableSQL_columns, rows = [], last_id = 0\<rparr>\<rparr>))))"

text \<open>
  \<open>SELECT MAX(block_num) FROM posts\<close> scanned into a \<open>sql.NullInt64\<close>: \<open>NULL\<close> when
  no row has a value there, an error when the greatest value is no integer (text sorts
  above every integer in SQLite).
\<close>

definition block_nums :: "table \<Rightarrow> sqlval list" where
  "block_nums t =
     filter (\<lambda>v. v \<noteq> SNull)
       (map (\<lambda>r. case map_of r ''block_num'' of None \<Rightarrow> SNull | Some v \<Rightarrow> v) (rows t))"

fun max_ints :: "sqlval list \<Rightarrow> int option \<Rightarrow> err + int option" where
  "max_ints [] m = Inr m"
| "max_ints (SInt n # vs) m =
     max_ints vs (case m of None \<Rightarrow> Some n | Some k \<Rightarrow> Some (max k n))"
| "max_ints (v # vs) m = Inl (LibErr ''sql: Scan error'')"

definition QueryRow_MAX_block_num ::
  "env \<Rightarrow> 'a world_scheme \<Rightarrow> (err + int option) \<times> 'a world_scheme" where
  "QueryRow_MAX_block_num env w =
     (case db_call env w of
        (True, w1) \<Rightarrow> (Inl (LibErr ''db.QueryRow''), w1)
      | (False, w1) \<Rightarrow>
          (case posts w1 of
             None \<Rightarrow> (Inl (LibErr ''no such table: posts''), w1)
           | Some t \<Rightarrow> (max_ints (block_nums t) None, w1)))"

definition getLastProcessedBlock ::
  "env \<Rightarrow> int \<Rightarrow> 'a world_scheme \<Rightarrow> (int \<times> err option) \<times> 'a world_scheme" where
  "getLastProcessedBlock env genesisBlock w =
     (case QueryRow_MAX_block_num env w of
        (Inl e, w1) \<Rightarrow> ((0, Some e), w1)
      | (Inr None, w1) \<Rightarrow> ((genesisBlock, None), w1)
      | (Inr (Some blockNum), w1) \<Rightarrow> ((blockNum, None), w1))"

section \<open>The block processor\<close>

text \<open>
  The prepared statement is the list of columns its \<open>INSERT INTO posts\<close> names;
  preparing it fails when the table is missing or lacks one of them.
\<close>

record BlockProcessor =
  config :: Config
  stmt :: "string list"

definition insert_columns :: "string list" where
  "insert_columns =
     [''url'', ''author'', ''permlink'', ''title'', ''tags'', ''block_num'', ''timestamp'']"

definition db_Prepare ::
  "env \<Rightarrow> string list \<Rightarrow> 'a world_scheme \<Rightarrow> (err + string list) \<times> 'a world_scheme" where
  "db_Prepare env cols w =
     (case db_call env w of
        (True, w1) \<Rightarrow> (Inl (LibErr ''db.Prepare''), w1)
      | (False, w1) \<Rightarrow>
          (case posts w1 of
             None \<Rightarrow> (Inl (LibErr ''no such table: posts''), w1)
           | Some t \<Rightarrow>
               (case filter (\<lambda>c. c \<notin> set (columns t)) cols of
                  [] \<Rightarrow> (Inr cols, w1)
                | c # cs \<Rightarrow> (Inl (LibErr (''table posts has no column named '' @ c)), w1))))"

definition NewBlockProcessor ::
  "env \<Rightarrow> Config \<Rightarrow> 'a world_scheme \<Rightarrow> (err + BlockProcessor) \<times> 'a world_scheme" where
  "NewBlockProcessor env cfg w =
     (case db_Prepare env insert_columns w of
        (Inl e, w1) \<Rightarrow> (Inl (Wrapped ''error preparing statement'' e), w1)
      | (Inr st, w1) \<Rightarrow> (Inr \<lparr>config = cfg, stmt = st\<rparr>, w1))"

text \<open>
  \<open>stmt.Exec\<close> of the insert with \<open>ON CONFLICT(url) DO NOTHING\<close>: the values are bound
  to the statement's columns in order; a row whose \<open>url\<close> is already there leaves the
  table as it is and is no error; otherwise the row is added under the next key.
\<close>

definition url_conflict :: "table \<Rightarrow> row \<Rightarrow> bool" where
  "url_conflict t r =
     (case map_of r ''url'' of
        None \<Rightarrow> False
      | Some v \<Rightarrow> v \<noteq> SNull \<and> list_ex (\<lambda>r'. map_of r' ''url'' = Some v) (rows t))"

definition stmt_Exec ::
  "env \<Rightarrow> string list \<Rightarrow> sqlval list \<Rightarrow> 'a world_scheme \<Rightarrow> err option \<times> 'a world_scheme" where
  "stmt_Exec env st vals w =
     (case db_call env (w\<lparr>exec_log := exec_log w @ [vals]\<rparr>) of
        (True, w1) \<Rightarrow> (Some (LibErr ''stmt.Exec''), w1)
      | (False, w1) \<Rightarrow>
          (case posts w1 of
             None \<Rightarrow> (Some (LibErr ''no such table: posts''), w1)
           | Some t \<Rightarrow>
               (let r = zip st vals in
                if url_conflict t r then (None, w1)
                else (None, w1\<lparr>posts := Some (t\<lparr>rows := rows t @ [(''_id'', SInt (last_id t + 1)) # r],
                                                   last_id := last_id t + 1\<rparr>)\<rparr>))))"

text \<open>
  The tag normalization of \<open>processBlock\<close> (the value of its local \<open>tagsJson\<close>): when
  the metadata does not unmarshal, the whole string stands for the tags.
\<close>

definition tagsJson_of :: "golib \<Rightarrow> string \<Rightarrow> string" where
  "tagsJson_of lib md =
     (if md \<noteq> [] then
        (let tags = (case json_Unmarshal md of Inl e \<Rightarrow> JString md | Inr v \<Rightarrow> v)
         in case tags of
              JString v \<Rightarrow> ''['' @ Quote lib v @ '']''
            | JSlice v \<Rightarrow>
                (case json_Marshal lib v of Inr tagsBytes \<Rightarrow> tagsBytes | Inl e \<Rightarrow> ''[]'')
            | _ \<Rightarrow> ''[]'')
      else ''[]'')"

text \<open>The values \<open>processBlock\<close> binds to the insert for one operation.\<close>

definition post_values :: "golib \<Rightarrow> int \<Rightarrow> string \<Rightarrow> OperationValue \<Rightarrow> sqlval list" where
  "post_values lib blockNum ts v =
     [SText (constructAuthorPerm (Author v) (Permlink v)), SText (Author v),
      SText (Permlink v), SText (Title v), SText (tagsJson_of lib (JsonMetadata v)),
      SInt blockNum, SText ts]"

text \<open>
  The two loops of \<open>processBlock\<close>, over the operations of a transaction and over the
  transactions. An error in the result is the early \<open>return processedCount, err\<close>.
\<close>

fun process_ops ::
  "env \<Rightarrow> golib \<Rightarrow> BlockProcessor \<Rightarrow> int \<Rightarrow> string \<Rightarrow> Operation list \<Rightarrow> int \<Rightarrow>
   'a world_scheme \<Rightarrow> (int \<times> err option) \<times> 'a world_scheme" where
  "process_ops env lib bp blockNum ts [] processedCount w = ((processedCount, None), w)"
| "process_ops env lib bp blockNum ts (op # ops) processedCount w =
     (if Type op \<noteq> ''comment_operation'' then
        process_ops env lib bp blockNum ts ops processedCount w
      else if ParentAuthor (Value op) \<noteq> [] then
        process_ops env lib bp blockNum ts ops processedCount w
      else
        (case retryWithBackoff (MaxRetries (config bp)) (RetryDelay (config bp))
                (stmt_Exec env (stmt bp) (post_values lib blockNum ts (Value op))) w of
           (Some e, w1) \<Rightarrow> ((processedCount, Some (Wrapped ''error inserting post'' e)), w1)
         | (None, w1) \<Rightarrow> process_ops env lib bp blockNum ts ops (processedCount + 1) w1))"

fun process_txs ::
  "env \<Rightarrow> golib \<Rightarrow> BlockProcessor \<Rightarrow> int \<Rightarrow> string \<Rightarrow> Transaction list \<Rightarrow> int \<Rightarrow>
   'a world_scheme \<Rightarrow> (int \<times> err option) \<times> 'a world_scheme" where
  "process_txs env lib bp blockNum ts [] processedCount w = ((processedCount, None), w)"
| "process_txs env lib bp blockNum ts (tx # txs) processedCount w =
     (case process_ops env lib bp blockNum ts (Operations tx) processedCount w of
        ((n, Some e), w1) \<Rightarrow> ((n, Some e), w1)
      | ((n, None), w1) \<Rightarrow> process_txs env lib bp blockNum ts txs n w1)"

definition processBlock ::
  "env \<Rightarrow> golib \<Rightarrow> BlockProcessor \<Rightarrow> Block \<Rightarrow> 'a world_scheme \<Rightarrow>
   (panic + int \<times> err option) \<times> 'a world_scheme" where
  "processBlock env lib bp block w =
     (case slice_to 8 (BlockNum block) of
        Inl p \<Rightarrow> (Inl p, w)
      | Inr hexBlockNum \<Rightarrow>
          (case ParseInt hexBlockNum 16 32 of
             (blockNum, Some e) \<Rightarrow>
               (Inr (0, Some (Wrapped ''error converting block number from hex'' e)), w)
           | (blockNum, None) \<Rightarrow>
               (case process_txs env lib bp blockNum (Timestamp block) (Transactions block) 0 w of
                  (r, w1) \<Rightarrow> (Inr r, w1))))"

section \<open>The chain's API (blockchain.go)\<close>

text \<open>
  \<open>getLatestBlock\<close> and \<open>getBlockRange\<close> post a request and decode the answer; the
  answer, or the error of the transport or of the decoding, is the environment's.
\<close>

definition getLatestBlock ::
  "env \<Rightarrow> 'a world_scheme \<Rightarrow> (int \<times> err option) \<times> 'a world_scheme" where
  "getLatestBlock env w =
     (case head_block env (net_calls w) of
        Inl e \<Rightarrow> ((0, Some e), w\<lparr>net_calls := net_calls w + 1\<rparr>)
      | Inr n \<Rightarrow> ((n, None), w\<lparr>net_calls := net_calls w + 1\<rparr>))"

definition getBlockRange ::
  "env \<Rightarrow> int \<Rightarrow> int \<Rightarrow> 'a world_scheme \<Rightarrow> (Block list \<times> err option) \<times> 'a world_scheme" where
  "getBlockRange env startBlock count w =
     (case block_range env (net_calls w) startBlock count of
        Inl e \<Rightarrow>
          (([], Some e),
           w\<lparr>net_calls := net_calls w + 1, requests := requests w @ [(startBlock, count)]\<rparr>)
      | Inr bs \<Rightarrow>
          ((bs, None),
           w\<lparr>net_calls := net_calls w + 1, requests := requests w @ [(startBlock, count)]\<rparr>))"

section \<open>main.go\<close>

text \<open>
  A \<open>float64\<close> with the special values a division by zero gives. Finite values are kept
  exact: rounding is not modelled.
\<close>

datatype float64 = Finite real | PosInf | NegInf | NaN

definition float_div :: "real \<Rightarrow> real \<Rightarrow> float64" where
  "float_div x y =
     (if y \<noteq> 0 then Finite (x / y)
      else if x > 0 then PosInf else if x < 0 then NegInf else NaN)"

fun float_times :: "float64 \<Rightarrow> real \<Rightarrow> float64" where
  "float_times (Finite x) y = Finite (x * y)"
| "float_times PosInf y = (if y > 0 then PosInf else if y < 0 then NegInf else NaN)"
| "float_times NegInf y = (if y > 0 then NegInf else if y < 0 then PosInf else NaN)"
| "float_times NaN y = NaN"

text \<open>
  \<open>float64(lastProcessed-config.GenesisBlock) / float64(currentBlock-config.GenesisBlock) * 100\<close>
\<close>

definition percentage :: "int \<Rightarrow> int \<Rightarrow> int \<Rightarrow> float64" where
  "percentage lastProcessed' genesisBlock currentBlock' =
     float_times
       (float_div (of_int (lastProcessed' - genesisBlock)) (of_int (currentBlock' - genesisBlock)))
       100"

text \<open>The local variables of \<open>main\<close>, beside the world; \<open>progress\<close> is what it reports.\<close>

record main_state = world +
  currentBlock :: int
  lastProcessed :: int
  blocks :: "Block list"
  variance :: int
  totalProcessed :: int
  totalInserts :: int
  progress :: "float64 list"

datatype exit = Fatal err | Crashed panic | Completed

text \<open>The closure that reads the chain's head and the store's last block (lines 36 to 48).\<close>

definition bootstrap_op :: "env \<Rightarrow> Config \<Rightarrow> main_state \<Rightarrow> err option \<times> main_state" where
  "bootstrap_op env cfg s =
     (case getLatestBlock env s of
        ((n, Some e), s1) \<Rightarrow>
          (Some (Wrapped ''error getting latest block'' e), s1\<lparr>currentBlock := n\<rparr>)
      | ((n, None), s1) \<Rightarrow>
          (case getLastProcessedBlock env (GenesisBlock cfg) (s1\<lparr>currentBlock := n\<rparr>) of
             ((m, Some e), s2) \<Rightarrow>
               (Some (Wrapped ''error getting last processed block'' e), s2\<lparr>lastProcessed := m\<rparr>)
           | ((m, None), s2) \<Rightarrow> (None, s2\<lparr>lastProcessed := m\<rparr>)))"

text \<open>
  Lines 34 to 61: the retried closure, the fatal exit, the default for a last block of 0
  and the first variance.
\<close>

definition bootstrap :: "env \<Rightarrow> Config \<Rightarrow> main_state \<Rightarrow> err option \<times> main_state" where
  "bootstrap env cfg s =
     (case retryWithBackoff (MaxRetries cfg) (RetryDelay cfg) (bootstrap_op env cfg) s of
        (Some e, s1) \<Rightarrow> (Some e, s1)
      | (None, s1) \<Rightarrow>
          (let s2 = (if lastProcessed s1 = 0 then s1\<lparr>lastProcessed := GenesisBlock cfg\<rparr> else s1)
           in (None, s2\<lparr>variance := currentBlock s2 - lastProcessed s2\<rparr>)))"

text \<open>
  Go's \<open>int\<close> has 64 bits here: the result of an addition or a subtraction is the
  value of its two's complement representation.
\<close>

definition int64 :: "int \<Rightarrow> int" where
  "int64 x = (x + 2 ^ 63) mod 2 ^ 64 - 2 ^ 63"

text \<open>
  Lines 69 to 73: the range of one batch. The sum \<open>startBlock + count\<close> wraps around
  when it passes the greatest \<open>int\<close>.
\<close>

definition batch_count :: "Config \<Rightarrow> int \<Rightarrow> int \<Rightarrow> int" where
  "batch_count cfg currentBlock' startBlock =
     (let count = BatchSize cfg
      in if int64 (startBlock + count) > currentBlock'
         then int64 (int64 (currentBlock' - startBlock) + 1)
         else count)"

definition fetch_op :: "env \<Rightarrow> int \<Rightarrow> int \<Rightarrow> main_state \<Rightarrow> err option \<times> main_state" where
  "fetch_op env startBlock count s =
     (case getBlockRange env startBlock count s of
        ((bs, e), s1) \<Rightarrow> (e, s1\<lparr>blocks := bs\<rparr>))"

text \<open>
  Lines 90 to 107: the blocks of a batch in order. The block "0" is skipped, a block whose
  processing returns an error is skipped without touching \<open>lastProcessed\<close>, a panic ends
  the program.
\<close>

fun process_blocks ::
  "env \<Rightarrow> golib \<Rightarrow> BlockProcessor \<Rightarrow> Block list \<Rightarrow> int \<Rightarrow> main_state \<Rightarrow>
   (panic + int) \<times> main_state" where
  "process_blocks env lib bp [] batchInserts s = (Inr batchInserts, s)"
| "process_blocks env lib bp (block # bs) batchInserts s =
     (if BlockNum block = ''0'' then process_blocks env lib bp bs batchInserts s
      else
        (case processBlock env lib bp block s of
           (Inl p, s1) \<Rightarrow> (Inl p, s1)
         | (Inr (insertCount, Some e), s1) \<Rightarrow> process_blocks env lib bp bs batchInserts s1
         | (Inr (insertCount, None), s1) \<Rightarrow>
             (case slice_to 8 (BlockNum block) of
                Inl p \<Rightarrow> (Inl p, s1)
              | Inr hexBlockNum \<Rightarrow>
                  process_blocks env lib bp bs (batchInserts + insertCount)
                    (s1\<lparr>lastProcessed := fst (ParseInt hexBlockNum 16 32),
                        totalProcessed := totalProcessed s1 + 1\<rparr>))))"

text \<open>One pass of the loop \<open>for variance > 0\<close> (lines 69 to 121).\<close>

definition loop_body ::
  "env \<Rightarrow> golib \<Rightarrow> BlockProcessor \<Rightarrow> Config \<Rightarrow> main_state \<Rightarrow> panic option \<times> main_state" where
  "loop_body env lib bp cfg s =
     (let startBlock = lastProcessed s + 1;
          count = batch_count cfg (currentBlock s) startBlock
      in case retryWithBackoff (MaxRetries cfg) (RetryDelay cfg)
                (fetch_op env startBlock count) (s\<lparr>blocks := []\<rparr>) of
           (Some e, s1) \<Rightarrow> (None, s1)
         | (None, s1) \<Rightarrow>
             (case process_blocks env lib bp (blocks s1) 0 s1 of
                (Inl p, s2) \<Rightarrow> (Some p, s2)
              | (Inr batchInserts, s2) \<Rightarrow>
                  (None,
                   s2\<lparr>totalInserts := totalInserts s2 + batchInserts,
                      progress := progress s2 @
                        [percentage (lastProcessed s2) (GenesisBlock cfg) (currentBlock s2)],
                      variance := currentBlock s2 - lastProcessed s2\<rparr>)))"

text \<open>
  The loop may run for ever (a fetch that keeps failing leaves the variance as it is), so
  it takes the number of passes it may still make; \<open>None\<close> is a loop still running.
\<close>

fun main_loop ::
  "nat \<Rightarrow> env \<Rightarrow> golib \<Rightarrow> BlockProcessor \<Rightarrow> Config \<Rightarrow> main_state \<Rightarrow>
   exit option \<times> main_state" where
  "main_loop fuel env lib bp cfg s =
     (if variance s > 0 then
        (case fuel of
           0 \<Rightarrow> (None, s)
         | Suc f \<Rightarrow>
             (case loop_body env lib bp cfg s of
                (Some p, s1) \<Rightarrow> (Some (Crashed p), s1)
              | (None, s1) \<Rightarrow> main_loop f env lib bp cfg s1))
      else (Some Completed, s))"

definition main :: "nat \<Rightarrow> env \<Rightarrow> golib \<Rightarrow> main_state \<Rightarrow> exit option \<times> main_state" where
  "main fuel env lib s =
     (let cfg = DefaultConfig
      in case retryWithBackoff (MaxRetries cfg) (RetryDelay cfg) (initDB env) s of
           (Some e, s1) \<Rightarrow> (Some (Fatal e), s1)
         | (None, s1) \<Rightarrow>
             (case NewBlockProcessor env cfg s1 of
                (Inl e, s2) \<Rightarrow> (Some (Fatal e), s2)
              | (Inr bp, s2) \<Rightarrow>
                  (case bootstrap env cfg s2 of
                     (Some e, s3) \<Rightarrow> (Some (Fatal e), s3)
                   | (None, s3) \<Rightarrow>
                       main_loop fuel env lib bp cfg
                         (s3\<lparr>totalProcessed := 0, totalInserts := 0\<rparr>))))"

text \<open>The state of a first start: no database file, nothing done yet.\<close>

definition start_state :: main_state where
  "start_state =
     \<lparr>slept = [], posts = None, db_calls = 0, exec_log = [], net_calls = 0, requests = [],
      currentBlock = 0, lastProcessed = 0, blocks = [], variance = 0,
      totalProcessed = 0, totalInserts = 0, progress = []\<rparr>"

text \<open>
  A database in which \<open>posts\<close>, if it exists, is the table \<open>initDB\<close> creates, and on
  which no insert has been executed.
\<close>

definition created_or_absent :: "'a world_scheme \<Rightarrow> bool" where
  "created_or_absent w =
     ((case posts w of None \<Rightarrow> True | Some t \<Rightarrow> columns t = createTableSQL_columns) \<and>
      exec_log w = [])"

section \<open>Notions the properties are stated with\<close>

text \<open>
  The operations \<open>processBlock\<close> does not skip (lines 76 to 84), the operations of a
  block in the order of its two loops, and the height its identifier holds.
\<close>

definition is_top_level_post :: "Operation \<Rightarrow> bool" where
  "is_top_level_post op \<longleftrightarrow> Type op = ''comment_operation'' \<and> ParentAuthor (Value op) = []"

definition block_ops :: "Block \<Rightarrow> Operation list" where
  "block_ops block = concat (map Operations (Transactions block))"

definition top_level_posts :: "Block \<Rightarrow> Operation list" where
  "top_level_posts block = filter is_top_level_post (block_ops block)"

definition well_formed_id :: "Block \<Rightarrow> bool" where
  "well_formed_id block \<longleftrightarrow>
     8 \<le> length (BlockNum block) \<and> snd (ParseInt (take 8 (BlockNum block)) 16 32) = None"

definition block_height :: "Block \<Rightarrow> int" where
  "block_height block = fst (ParseInt (take 8 (BlockNum block)) 16 32)"

definition no_db_faults :: "env \<Rightarrow> bool" where
  "no_db_faults env \<longleftrightarrow> (\<forall>k. \<not> db_fails env k)"

text \<open>
  The text between the quotes of a string literal, as the scanner accepts it: \<open>lex\<close> is
  the part of the scanner's state that the bytes of a string literal move.
\<close>

datatype lex = LexIn | LexEsc | LexU nat | LexBad

definition lex_step :: "lex \<Rightarrow> char \<Rightarrow> lex" where
  "lex_step l c =
     (case l of
        LexIn \<Rightarrow>
          if c = dquote then LexBad
          else if c = backslash then LexEsc
          else if of_char c < (0x20 :: nat) then LexBad
          else LexIn
      | LexEsc \<Rightarrow>
          if c = CHR ''b'' \<or> c = CHR ''f'' \<or> c = CHR ''n'' \<or> c = CHR ''r'' \<or> c = CHR ''t'' \<or>
             c = backslash \<or> c = CHR ''/'' \<or> c = dquote
          then LexIn
          else if c = CHR ''u'' then LexU 0
          else LexBad
      | LexU n \<Rightarrow> if hexval c \<noteq> None then (if n < 3 then LexU (n + 1) else LexIn) else LexBad
      | LexBad \<Rightarrow> LexBad)"

definition string_body :: "string \<Rightarrow> bool" where
  "string_body lit = (foldl lex_step LexIn lit = LexIn)"


text \<open>
  What holds of the scanner at every byte: a key of an object is read as a string
  literal, and the bytes held in a state inside a string literal have moved the scanner
  there.
\<close>

definition is_key :: "frame \<Rightarrow> bool" where
  "is_key f = (case f of parseObjectKey ms \<Rightarrow> True | _ \<Rightarrow> False)"

definition top_key :: "frame list \<Rightarrow> bool" where
  "top_key ps = (case ps of [] \<Rightarrow> False | f # r \<Rightarrow> is_key f)"

definition top_array :: "frame list \<Rightarrow> bool" where
  "top_array ps =
     (case ps of [] \<Rightarrow> False | f # r \<Rightarrow> (case f of parseArrayValue vs \<Rightarrow> True | _ \<Rightarrow> False))"

definition is_string :: "json \<Rightarrow> bool" where
  "is_string v = (case v of JsString k \<Rightarrow> True | _ \<Rightarrow> False)"

fun state_ok :: "scan_state \<Rightarrow> frame list \<Rightarrow> bool" where
  "state_ok BeginValueOrEmpty ps = top_array ps"
| "state_ok BeginStringOrEmpty ps = top_key ps"
| "state_ok BeginString ps = True"
| "state_ok (InString lit) ps = (foldl lex_step LexIn lit = LexIn)"
| "state_ok (InStringEsc lit) ps = (foldl lex_step LexIn lit = LexEsc)"
| "state_ok (InStringEscU n lit) ps = (foldl lex_step LexIn lit = LexU n)"
| "state_ok (EndValue v) ps = (\<not> top_key ps \<or> is_string v)"
| "state_ok (Lit expected v) ps = (expected \<noteq> [] \<and> \<not> top_key ps)"
| "state_ok StateError ps = True"
| "state_ok OutOfSync ps = False"
| "state_ok st ps = (\<not> top_key ps)"

definition scan_inv :: "scanner \<Rightarrow> bool" where
  "scan_inv s =
     (step s = StateError \<or>
      list_all (\<lambda>f. \<not> is_key f) (tl (parseState s)) \<and> state_ok (step s) (parseState s))"


text \<open>
  The characters that \<open>%q\<close> writes as they are, and the string literal of a text.
\<close>

definition plain :: "char \<Rightarrow> bool" where
  "plain c = ((0x20 :: nat) \<le> of_char c \<and> of_char c \<le> (0x7E :: nat) \<and> c \<noteq> dquote \<and> c \<noteq> backslash)"

definition literal :: "string \<Rightarrow> string" where
  "literal t = [dquote] @ t @ [dquote]"

definition lex_state :: "lex \<Rightarrow> string \<Rightarrow> scan_state" where
  "lex_state l lit =
     (case l of
        LexIn \<Rightarrow> InString lit
      | LexEsc \<Rightarrow> InStringEsc lit
      | LexU n \<Rightarrow> InStringEscU n lit
      | LexBad \<Rightarrow> StateError)"

text \<open>
  Inputs for the examples: an environment in which no database call fails and the chain
  answers nothing, a library whose tables have no printable rune above \<open>0xFF\<close> and
  write a number as its literal is (no example has such a rune or a number in its tags), a
  processor with the default configuration, and a database whose table \<open>posts\<close> has the
  columns of the insert.
\<close>

definition quiet_env :: env where
  "quiet_env =
     \<lparr>db_fails = (\<lambda>k. False), head_block = (\<lambda>k. Inr 0), block_range = (\<lambda>k s c. Inr [])\<rparr>"

definition example_lib :: golib where
  "example_lib = \<lparr>IsPrint_table = (\<lambda>r. False), FormatFloat = (\<lambda>lit. lit)\<rparr>"

definition example_bp :: BlockProcessor where
  "example_bp = \<lparr>config = DefaultConfig, stmt = insert_columns\<rparr>"

definition ready_state :: main_state where
  "ready_state =
     start_state\<lparr>posts := Some \<lparr>columns = ''_id'' # insert_columns, rows = [], last_id = 0\<rparr>\<rparr>"

text \<open>
  A block of height 103 (hexadecimal 67) with a top-level post, a reply to it and a vote,
  and a block of the same height whose only operation has the kind \<open>comment\<close>.
\<close>

definition example_post :: Operation where
  "example_post =
     \<lparr>Type = ''comment_operation'',
      Value = \<lparr>Author = ''alice'', Title = ''Hello'', Permlink = ''hello'', ParentAuthor = '''',
               JsonMetadata = ''{\"tags\":[\"a\",\"b\"]}''\<rparr>\<rparr>"

definition example_reply :: Operation where
  "example_reply =
     \<lparr>Type = ''comment_operation'',
      Value = \<lparr>Author = ''bob'', Title = '''', Permlink = ''re-hello'', ParentAuthor = ''alice'',
               JsonMetadata = ''''\<rparr>\<rparr>"

definition example_vote :: Operation where
  "example_vote =
     \<lparr>Type = ''vote_operation'',
      Value = \<lparr>Author = ''bob'', Title = '''', Permlink = ''hello'', ParentAuthor = '''',
               JsonMetadata = ''''\<rparr>\<rparr>"

definition example_block :: Block where
  "example_block =
     \<lparr>BlockNum = ''00000067a1b2c3d4'', Timestamp = ''2020-03-01T12:00:00'',
      Transactions = [\<lparr>Operations = [example_vote, example_post]\<rparr>, \<lparr>Operations = [example_reply]\<rparr>]\<rparr>"

definition comment_kind_block :: Block where
  "comment_kind_block =
     \<lparr>BlockNum = ''00000067a1b2c3d4'', Timestamp = ''2020-03-01T12:00:00'',
      Transactions = [\<lparr>Operations = [example_post\<lparr>Type := ''comment''\<rparr>]\<rparr>]\<rparr>"

text \<open>
  \<open>db_only w w'\<close>: the state \<open>w'\<close> differs from \<open>w\<close> at most in the database and in
  the sleeps, which is all that the insert of a post, retried, can change.
\<close>

definition db_only :: "'a world_scheme \<Rightarrow> 'a world_scheme \<Rightarrow> bool" where
  "db_only w w' \<longleftrightarrow>
     net_calls w' = net_calls w \<and> requests w' = requests w \<and> world.more w' = world.more w"

text \<open>
  A chain whose head is block 105 and whose API answers the request from block 104 with
  two blocks, the first with an identifier that is no hexadecimal number, the second
  block 105 (hexadecimal 69) with a top-level post; a configuration with genesis block
  100; and the ready database after the example block has been stored.
\<close>

definition bad_block :: Block where
  "bad_block = \<lparr>BlockNum = ''zzzzzzzza1b2c3d4'', Timestamp = ''2020-03-01T12:00:03'',
     Transactions = []\<rparr>"

definition block_105 :: Block where
  "block_105 =
     \<lparr>BlockNum = ''00000069a1b2c3d4'', Timestamp = ''2020-03-01T12:00:06'',
      Transactions = [\<lparr>Operations = [example_post]\<rparr>]\<rparr>"

definition example_chain :: env where
  "example_chain =
     \<lparr>db_fails = (\<lambda>k. False), head_block = (\<lambda>k. Inr 105),
      block_range = (\<lambda>k st c. if st = 104 then Inr [bad_block, block_105] else Inr [])\<rparr>"

definition example_cfg :: Config where
  "example_cfg = DefaultConfig\<lparr>GenesisBlock := 100\<rparr>"

definition stored_state :: main_state where
  "stored_state =
     ready_state\<lparr>posts := Some
       \<lparr>columns = ''_id'' # insert_columns,
        rows = [(''_id'', SInt 1) #
                zip insert_columns
                  (post_values example_lib 103 ''2020-03-01T12:00:00'' (Value example_post))],
        last_id = 1\<rparr>\<rparr>"

text \<open>The table already holds a row under the key of this operation's post.\<close>

definition already_stored :: "table \<Rightarrow> Operation \<Rightarrow> bool" where
  "already_stored t op \<longleftrightarrow>
     list_ex
       (\<lambda>r. map_of r ''url'' =
              Some (SText (constructAuthorPerm (Author (Value op)) (Permlink (Value op)))))
       (rows t)"

text \<open>
  What the chain's API is expected to answer to a request for the blocks from \<open>st\<close>: the
  blocks in the order of their heights, the one at position \<open>i\<close> being block \<open>st + i\<close>
  (as far as its identifier can be read).
\<close>

definition in_order :: "int \<Rightarrow> Block list \<Rightarrow> bool" where
  "in_order st bs \<longleftrightarrow>
     (\<forall>i<length bs. well_formed_id (bs ! i) \<longrightarrow> block_height (bs ! i) = st + int i)"

definition chain_in_order :: "env \<Rightarrow> bool" where
  "chain_in_order env \<longleftrightarrow>
     (\<forall>k st c bs. block_range env k st c = Inr bs \<longrightarrow> in_order st bs)"

text \<open>
  Inside one pass of the loop from the state \<open>s\<close>: the state after the retried fetch, the
  state in which the block at position \<open>i\<close> of the fetched batch is reached, and what
  \<open>processBlock\<close> returns for it there.
\<close>

definition after_fetch :: "env \<Rightarrow> Config \<Rightarrow> main_state \<Rightarrow> main_state" where
  "after_fetch env cfg s =
     snd (retryWithBackoff (MaxRetries cfg) (RetryDelay cfg)
            (fetch_op env (lastProcessed s + 1)
               (batch_count cfg (currentBlock s) (lastProcessed s + 1)))
            (s\<lparr>blocks := []\<rparr>))"

definition before_block ::
  "env \<Rightarrow> golib \<Rightarrow> BlockProcessor \<Rightarrow> Config \<Rightarrow> main_state \<Rightarrow> nat \<Rightarrow> main_state" where
  "before_block env lib bp cfg s i =
     snd (process_blocks env lib bp (take i (blocks (after_fetch env cfg s))) 0
            (after_fetch env cfg s))"

definition block_outcome ::
  "env \<Rightarrow> golib \<Rightarrow> BlockProcessor \<Rightarrow> Config \<Rightarrow> main_state \<Rightarrow> nat \<Rightarrow> panic + int \<times> err option"
  where
  "block_outcome env lib bp cfg s i =
     fst (processBlock env lib bp (blocks (after_fetch env cfg s) ! i)
            (before_block env lib bp cfg s i))"

definition block_fails ::
  "env \<Rightarrow> golib \<Rightarrow> BlockProcessor \<Rightarrow> Config \<Rightarrow> main_state \<Rightarrow> nat \<Rightarrow> bool" where
  "block_fails env lib bp cfg s i \<longleftrightarrow>
     i < length (blocks (after_fetch env cfg s)) \<and>
     BlockNum (blocks (after_fetch env cfg s) ! i) \<noteq> ''0'' \<and>
     (case block_outcome env lib bp cfg s i of Inr (c, Some e) \<Rightarrow> True | _ \<Rightarrow> False)"

definition block_succeeds ::
  "env \<Rightarrow> golib \<Rightarrow> BlockProcessor \<Rightarrow> Config \<Rightarrow> main_state \<Rightarrow> nat \<Rightarrow> bool" where
  "block_succeeds env lib bp cfg s i \<longleftrightarrow>
     i < length (blocks (after_fetch env cfg s)) \<and>
     BlockNum (blocks (after_fetch env cfg s) ! i) \<noteq> ''0'' \<and>
     (case block_outcome env lib bp cfg s i of Inr (c, None) \<Rightarrow> True | _ \<Rightarrow> False)"

text \<open>The run resumed at block 103 on the stored database, with the chain's head at 105.\<close>

definition resumed_state :: main_state where
  "resumed_state = stored_state\<lparr>currentBlock := 105, lastProcessed := 103, variance := 2\<rparr>"

text \<open>
  The same chain grown to the head 107, with the run resumed at block 103; and a chain
  that answers the request from block 104 out of order, the unreadable block first and
  then an empty block whose identifier holds the height 100 (hexadecimal 64).
\<close>

definition growing_chain :: env where
  "growing_chain = example_chain\<lparr>head_block := (\<lambda>k. Inr 107)\<rparr>"

definition resumed_far :: main_state where
  "resumed_far = stored_state\<lparr>currentBlock := 107, lastProcessed := 103, variance := 4\<rparr>"

definition block_100 :: Block where
  "block_100 = \<lparr>BlockNum = ''00000064a1b2c3d4'', Timestamp = ''2020-03-01T11:59:51'',
     Transactions = []\<rparr>"

definition unordered_chain :: env where
  "unordered_chain =
     \<lparr>db_fails = (\<lambda>k. False), head_block = (\<lambda>k. Inr 105),
      block_range = (\<lambda>k st c. if st = 104 then Inr [bad_block, block_100] else Inr [])\<rparr>"

section \<open>The scanner and the decoder of encoding/json\<close>

lemma lex_bad [simp]: "foldl lex_step LexBad s = LexBad"
  by (induction s) (simp_all add: lex_step_def)

lemma lex_u4:
  assumes "foldl lex_step (LexU 0) s = LexIn"
  obtains h1 h2 h3 h4 r where "s = h1 # h2 # h3 # h4 # r"
    and "hexval h1 \<noteq> None" and "hexval h2 \<noteq> None" and "hexval h3 \<noteq> None" and "hexval h4 \<noteq> None"
    and "foldl lex_step LexIn r = LexIn"
proof -
  from assms obtain h1 s1 where s: "s = h1 # s1" by (cases s) auto
  with assms have a1: "hexval h1 \<noteq> None" "foldl lex_step (LexU (Suc 0)) s1 = LexIn"
    by (auto simp add: lex_step_def split: if_splits)
  then obtain h2 s2 where s1: "s1 = h2 # s2" by (cases s1) auto
  with a1 have a2: "hexval h2 \<noteq> None" "foldl lex_step (LexU (Suc (Suc 0))) s2 = LexIn"
    by (auto simp add: lex_step_def split: if_splits)
  then obtain h3 s3 where s2: "s2 = h3 # s3" by (cases s2) auto
  with a2 have a3: "hexval h3 \<noteq> None" "foldl lex_step (LexU (Suc (Suc (Suc 0)))) s3 = LexIn"
    by (auto simp add: lex_step_def eval_nat_numeral split: if_splits)
  then obtain h4 s4 where s3: "s3 = h4 # s4" by (cases s3) auto
  with a3 have a4: "hexval h4 \<noteq> None" "foldl lex_step LexIn s4 = LexIn"
    by (auto simp add: lex_step_def eval_nat_numeral split: if_splits)
  show thesis using that [of h1 h2 h3 h4 s4] s s1 s2 s3 a1 a2 a3 a4 by simp
qed

lemma lex_plain_high:
  "(0x80 :: nat) \<le> of_char c \<Longrightarrow> lex_step LexIn c = LexIn"
  by (auto simp add: lex_step_def dquote_def backslash_def)

lemma DecodeRune_width:
  assumes "DecodeRune (c # s) = (r, w)"
  shows "1 \<le> w \<and> w \<le> 4 \<and> w \<le> length (c # s) \<and>
         (\<forall>i < w - 1. (0x80 :: nat) \<le> of_char (s ! i))"
proof (cases s)
  case Nil
  with assms show ?thesis by (auto simp add: DecodeRune_def Let_def split: if_splits)
next
  case (Cons b1 s1)
  note c1 = Cons
  show ?thesis
  proof (cases s1)
    case Nil
    with assms c1 show ?thesis
      by (auto simp add: DecodeRune_def Let_def less_Suc_eq split: if_splits)
  next
    case (Cons b2 s2)
    note c2 = Cons
    show ?thesis
    proof (cases s2)
      case Nil
      with assms c1 c2 show ?thesis
        by (auto simp add: DecodeRune_def Let_def less_Suc_eq nth_Cons' split: if_splits)
    next
      case (Cons b3 s3)
      with assms c1 c2 show ?thesis
        by (auto simp add: DecodeRune_def Let_def less_Suc_eq nth_Cons' split: if_splits)
    qed
  qed
qed

lemma lex_drop_high:
  "\<forall>i < n. (0x80 :: nat) \<le> of_char (s ! i) \<Longrightarrow> n \<le> length s \<Longrightarrow>
   foldl lex_step LexIn s = foldl lex_step LexIn (drop n s)"
proof (induction n arbitrary: s)
  case 0
  then show ?case by simp
next
  case (Suc n)
  then obtain c s' where s: "s = c # s'" by (cases s) auto
  with Suc.prems have "(0x80 :: nat) \<le> of_char c" by auto
  moreover have "\<forall>i < n. (0x80 :: nat) \<le> of_char (s' ! i)" using Suc.prems s by auto
  ultimately show ?case using Suc.IH [of s'] Suc.prems s by (simp add: lex_plain_high)
qed

lemma getu4_Some:
  assumes "getu4 r = Some r2"
  obtains k1 k2 k3 k4 r' where "r = backslash # CHR ''u'' # k1 # k2 # k3 # k4 # r'"
    and "hexval k1 \<noteq> None" and "hexval k2 \<noteq> None" and "hexval k3 \<noteq> None" and "hexval k4 \<noteq> None"
  using assms
  by (auto simp add: getu4_def split: list.splits if_splits option.splits)

lemma getu4_hex:
  "hexval h1 \<noteq> None \<Longrightarrow> hexval h2 \<noteq> None \<Longrightarrow> hexval h3 \<noteq> None \<Longrightarrow> hexval h4 \<noteq> None \<Longrightarrow>
   getu4 (backslash # CHR ''u'' # h1 # h2 # h3 # h4 # r) \<noteq> None"
  by (auto simp add: getu4_def)

lemma lex_escape_u:
  "hexval k1 \<noteq> None \<Longrightarrow> hexval k2 \<noteq> None \<Longrightarrow> hexval k3 \<noteq> None \<Longrightarrow> hexval k4 \<noteq> None \<Longrightarrow>
   foldl lex_step l (backslash # CHR ''u'' # k1 # k2 # k3 # k4 # r) =
     (if l = LexIn then foldl lex_step LexIn r else foldl lex_step l (backslash # CHR ''u'' # k1 # k2 # k3 # k4 # r))"
  by (auto simp add: lex_step_def eval_nat_numeral dquote_def backslash_def)

lemma unquoteBytes_ok:
  "foldl lex_step LexIn lit = LexIn \<Longrightarrow> unquoteBytes lit \<noteq> None"
proof (induction "length lit" arbitrary: lit rule: less_induct)
  case less
  show ?case
  proof (cases lit)
    case Nil
    then show ?thesis by simp
  next
    case (Cons c s)
    note lit = Cons
    consider (esc) "c = backslash" | (bad) "c \<noteq> backslash" "c = dquote \<or> of_char c < (0x20 :: nat)"
      | (ascii) "c \<noteq> backslash" "c \<noteq> dquote" "(0x20 :: nat) \<le> of_char c" "of_char c < (0x80 :: nat)"
      | (high) "(0x80 :: nat) \<le> of_char c"
      by (metis linorder_not_less)
    then show ?thesis
    proof cases
      case esc
      with less.prems lit have e: "foldl lex_step LexEsc s = LexIn"
        by (simp add: lex_step_def backslash_def dquote_def)
      then obtain e s' where s: "s = e # s'" by (cases s) auto
      show ?thesis
      proof (cases "e = CHR ''u''")
        case True
        with e s have "foldl lex_step (LexU 0) s' = LexIn"
          by (simp add: lex_step_def backslash_def dquote_def)
        then obtain h1 h2 h3 h4 r where s': "s' = h1 # h2 # h3 # h4 # r"
          and h: "hexval h1 \<noteq> None" "hexval h2 \<noteq> None" "hexval h3 \<noteq> None" "hexval h4 \<noteq> None"
          and r: "foldl lex_step LexIn r = LexIn"
          by (rule lex_u4)
        from h obtain rr where rr: "getu4 (c # s) = Some rr"
          using getu4_hex [of h1 h2 h3 h4 r] esc s s' True by auto
        have d5: "drop 5 s = r" using s s' by simp
        have ih_r: "unquoteBytes r \<noteq> None"
          using less.hyps [of r] r lit s s' by simp
        show ?thesis
        proof (cases "IsSurrogate rr \<and> utf16_DecodeRune rr (getu4 r) \<noteq> RuneError")
          case True
          then obtain r2 where "getu4 r = Some r2"
            by (cases "getu4 r") (auto simp add: utf16_DecodeRune_def)
          then obtain k1 k2 k3 k4 r' where r': "r = backslash # CHR ''u'' # k1 # k2 # k3 # k4 # r'"
            and k: "hexval k1 \<noteq> None" "hexval k2 \<noteq> None" "hexval k3 \<noteq> None" "hexval k4 \<noteq> None"
            by (rule getu4_Some)
          from r r' k have "foldl lex_step LexIn r' = LexIn"
            using lex_escape_u [of k1 k2 k3 k4 LexIn r'] by simp
          then have "unquoteBytes r' \<noteq> None"
            using less.hyps [of r'] lit s s' r' by simp
          moreover have "drop 11 s = r'" using s s' r' by simp
          ultimately show ?thesis
            using True lit esc s \<open>e = CHR ''u''\<close> rr d5
            by (simp add: backslash_def dquote_def)
        next
          case False
          then show ?thesis
            using lit esc s \<open>e = CHR ''u''\<close> rr d5 ih_r
            by (auto simp add: backslash_def dquote_def)
        qed
      next
        case False
        with e s have e': "e = CHR ''b'' \<or> e = CHR ''f'' \<or> e = CHR ''n'' \<or> e = CHR ''r'' \<or>
            e = CHR ''t'' \<or> e = backslash \<or> e = CHR ''/'' \<or> e = dquote"
          and s'': "foldl lex_step LexIn s' = LexIn"
          by (auto simp add: lex_step_def split: if_splits)
        have "unquoteBytes s' \<noteq> None"
          using less.hyps [of s'] s'' lit s by simp
        then show ?thesis
          using lit esc s e' by (auto simp add: backslash_def dquote_def)
      qed
    next
      case bad
      then have "lex_step LexIn c = LexBad"
        by (auto simp add: lex_step_def)
      with less.prems lit show ?thesis
        by simp
    next
      case ascii
      with less.prems lit have "foldl lex_step LexIn s = LexIn"
        by (simp add: lex_step_def)
      then have "unquoteBytes s \<noteq> None"
        using less.hyps [of s] lit by simp
      then show ?thesis
        using lit ascii by auto
    next
      case high
      obtain rr n where d: "DecodeRune (c # s) = (rr, n)"
        by (cases "DecodeRune (c # s)")
      from DecodeRune_width [OF d]
      have w: "n - 1 \<le> length s" "\<forall>i < n - 1. (0x80 :: nat) \<le> of_char (s ! i)"
        by auto
      from less.prems lit high have "foldl lex_step LexIn s = LexIn"
        by (simp add: lex_plain_high)
      then have "foldl lex_step LexIn (drop (n - 1) s) = LexIn"
        using lex_drop_high [of "n - 1" s] w by simp
      then have "unquoteBytes (drop (n - 1) s) \<noteq> None"
        using less.hyps [of "drop (n - 1) s"] lit by simp
      moreover have "c \<noteq> backslash" "c \<noteq> dquote" "\<not> of_char c < (0x20 :: nat)"
        "\<not> of_char c < (0x80 :: nat)"
        using high by (auto simp add: backslash_def dquote_def)
      ultimately show ?thesis
        using lit d by auto
    qed
  qed
qed


lemma step_scan_error [simp]: "step (scan_error s) = StateError"
  by (simp add: scan_error_def)

lemma scan_inv_error [simp]: "scan_inv (scan_error s)"
  by (simp add: scan_inv_def scan_error_def)












lemma plain_low: "plain c \<Longrightarrow> of_char c < (0x80 :: nat)"
  by (simp add: plain_def)

lemma quoted_plain: "list_all plain s \<Longrightarrow> quoted lib s = s"
proof (induction s)
  case Nil
  then show ?case by simp
next
  case (Cons c s)
  then have c: "plain c" and s: "quoted lib s = s" by simp_all
  from c have "of_char c \<noteq> RuneError" "\<not> (0x80 :: nat) \<le> of_char c"
    by (simp_all add: plain_def RuneError_def)
  moreover from c have "(of_char c :: nat) \<noteq> of_char dquote" "(of_char c :: nat) \<noteq> of_char backslash"
    by (simp_all add: plain_def)
  then have "appendEscapedRune lib (of_char c) = [c]"
    using c by (simp add: plain_def appendEscapedRune_def IsPrint_def EncodeRune_def)
  ultimately show ?case using s by simp
qed

lemma Quote_plain: "list_all plain s \<Longrightarrow> Quote lib s = literal s"
  by (simp add: Quote_def literal_def quoted_plain)

lemma scan_step_lex:
  assumes "step s = lex_state l lit0" "l = LexIn \<longrightarrow> c \<noteq> dquote"
  shows "scan_step s c = s\<lparr>step := lex_state (lex_step l c) (lit0 @ [c])\<rparr>"
proof (cases l)
  case LexIn
  with assms show ?thesis
    by (simp add: scan_step_def lex_state_def lex_step_def stateInString_def scan_error_def)
next
  case LexEsc
  with assms show ?thesis
    by (auto simp add: scan_step_def lex_state_def lex_step_def stateInStringEsc_def scan_error_def)
next
  case (LexU n)
  with assms show ?thesis
    by (auto simp add: scan_step_def lex_state_def lex_step_def stateInStringEscU_def scan_error_def)
next
  case LexBad
  with assms show ?thesis
    by (simp add: scan_step_def lex_state_def lex_step_def)
qed

lemma scan_lex:
  "step s = lex_state l lit0 \<Longrightarrow> foldl lex_step l lit \<noteq> LexBad \<Longrightarrow>
   foldl scan_step s lit = s\<lparr>step := lex_state (foldl lex_step l lit) (lit0 @ lit)\<rparr>"
proof (induction lit arbitrary: s l lit0)
  case Nil
  then show ?case by simp
next
  case (Cons c lit)
  have "lex_step LexIn dquote = LexBad" by (simp add: lex_step_def)
  then have "l = LexIn \<longrightarrow> c \<noteq> dquote"
    using Cons.prems(2) by auto
  then have st: "scan_step s c = s\<lparr>step := lex_state (lex_step l c) (lit0 @ [c])\<rparr>"
    using scan_step_lex Cons.prems(1) by simp
  show ?case
    using Cons.IH [of "s\<lparr>step := lex_state (lex_step l c) (lit0 @ [c])\<rparr>" "lex_step l c" "lit0 @ [c]"]
      Cons.prems(2) st
    by simp
qed

lemma scan_string_literal:
  assumes "string_body lit" "step s = BeginValue \<or> step s = BeginValueOrEmpty \<or>
      step s = BeginString \<or> step s = BeginStringOrEmpty"
  shows "foldl scan_step s (literal lit) = s\<lparr>step := EndValue (JsString (the (unquoteBytes lit)))\<rparr>"
proof -
  have a: "scan_step s dquote = s\<lparr>step := InString []\<rparr>"
    using assms(2)
    by (auto simp add: scan_step_def stateBeginValue_def stateBeginValueOrEmpty_def
          stateBeginString_def stateBeginStringOrEmpty_def isSpace_def dquote_def)
  have b: "foldl scan_step (s\<lparr>step := InString []\<rparr>) lit = s\<lparr>step := InString lit\<rparr>"
    using scan_lex [of "s\<lparr>step := InString []\<rparr>" LexIn "[]" lit] assms(1)
    by (simp add: lex_state_def string_body_def)
  obtain t where t: "unquoteBytes lit = Some t"
    using unquoteBytes_ok [of lit] assms(1) by (auto simp add: string_body_def)
  have c: "scan_step (s\<lparr>step := InString lit\<rparr>) dquote = s\<lparr>step := EndValue (JsString t)\<rparr>"
    using t by (simp add: scan_step_def stateInString_def)
  show ?thesis
    using a b c t by (simp add: literal_def)
qed

lemma plain_string_body: "list_all plain t \<Longrightarrow> string_body t"
proof -
  have "list_all plain t \<Longrightarrow> foldl lex_step LexIn t = LexIn"
    by (induction t) (auto simp add: lex_step_def plain_def)
  then show "list_all plain t \<Longrightarrow> string_body t" by (simp add: string_body_def)
qed

lemma plain_unquoteBytes: "list_all plain t \<Longrightarrow> unquoteBytes t = Some t"
  by (induction t) (auto simp add: plain_def)


lemmas scan_defs =
  scan_step_def stateBeginValue_def stateBeginValueOrEmpty_def stateBeginString_def
  stateBeginStringOrEmpty_def stateInString_def stateInStringEsc_def stateInStringEscU_def
  stateNeg_def state0_def state1_def stateDot_def stateDot0_def stateE_def stateESign_def
  stateE0_def stateLit_def stateEndValue_def stateEndTop_def popParseState_def
  pushParseState_def scan_error_def isSpace_def isDigit_def dquote_def backslash_def
  maxNestingDepth_def

lemmas scan_text_defs = scan_def scan_eof_def scan_reset_def scan_defs

lemma scan_tags_prefix:
  "foldl scan_step scan_reset ''{\"tags\":'' =
     \<lparr>step = BeginValue, parseState = [parseObjectValue [] ''tags'']\<rparr>"
  by (simp add: scan_reset_def scan_defs)

lemma scan_tags_string:
  assumes "string_body lit"
  shows "scan (''{\"tags\":'' @ literal lit @ ''}'') =
           EndTop (JsObject [(''tags'', JsString (the (unquoteBytes lit)))])"
proof -
  let ?s0 = "\<lparr>step = BeginValue, parseState = [parseObjectValue [] ''tags'']\<rparr>"
  have "foldl scan_step ?s0 (literal lit) =
          ?s0\<lparr>step := EndValue (JsString (the (unquoteBytes lit)))\<rparr>"
    using scan_string_literal [of lit ?s0] assms by simp
  then show ?thesis
    unfolding scan_def foldl_append scan_tags_prefix
    by (simp add: scan_eof_def scan_defs)
qed

lemma scan_array_elems:
  assumes "list_all string_body ls" "ls \<noteq> []" "parseState s = parseArrayValue vs # rest"
    "step s = BeginValue \<or> step s = BeginValueOrEmpty"
  shows "foldl scan_step s (commas (map literal ls)) =
           s\<lparr>step := EndValue (JsString (the (unquoteBytes (last ls)))),
             parseState := parseArrayValue
               (vs @ map (\<lambda>l. JsString (the (unquoteBytes l))) (butlast ls)) # rest\<rparr>"
  using assms
proof (induction ls arbitrary: s vs)
  case Nil
  then show ?case by simp
next
  case (Cons x ls)
  have x: "foldl scan_step s (literal x) = s\<lparr>step := EndValue (JsString (the (unquoteBytes x)))\<rparr>"
    using scan_string_literal [of x s] Cons.prems by auto
  show ?case
  proof (cases ls)
    case Nil
    then show ?thesis using x Cons.prems(3) by simp
  next
    case (Cons y ys)
    let ?s1 = "s\<lparr>step := EndValue (JsString (the (unquoteBytes x)))\<rparr>"
    let ?s2 = "s\<lparr>step := BeginValue,
                 parseState := parseArrayValue (vs @ [JsString (the (unquoteBytes x))]) # rest\<rparr>"
    have c: "scan_step ?s1 (CHR '','') = ?s2"
      using Cons.prems(3) by (simp add: scan_defs)
    have "foldl scan_step ?s2 (commas (map literal ls)) =
            ?s2\<lparr>step := EndValue (JsString (the (unquoteBytes (last ls)))),
                parseState := parseArrayValue
                  ((vs @ [JsString (the (unquoteBytes x))]) @
                   map (\<lambda>l. JsString (the (unquoteBytes l))) (butlast ls)) # rest\<rparr>"
      using Cons.IH [of ?s2 "vs @ [JsString (the (unquoteBytes x))]"] Cons.prems(1) Cons
      by simp
    then show ?thesis
      using x c Cons by simp
  qed
qed

lemma scan_tags_array_prefix:
  "foldl scan_step scan_reset ''{\"tags\":['' =
     \<lparr>step = BeginValueOrEmpty,
      parseState = [parseArrayValue [], parseObjectValue [] ''tags'']\<rparr>"
  by (simp add: scan_reset_def scan_defs)

lemma scan_tags_array:
  assumes "list_all string_body ls"
  shows "scan (''{\"tags\":['' @ commas (map literal ls) @ '']}'') =
           EndTop (JsObject [(''tags'', JsArray (map (\<lambda>l. JsString (the (unquoteBytes l))) ls))])"
proof (cases "ls = []")
  case True
  then show ?thesis by (simp add: scan_text_defs)
next
  case False
  let ?s0 = "\<lparr>step = BeginValueOrEmpty,
               parseState = [parseArrayValue [], parseObjectValue [] ''tags'']\<rparr>"
  let ?f = "\<lambda>l. JsString (the (unquoteBytes l))"
  have "foldl scan_step ?s0 (commas (map literal ls)) =
          ?s0\<lparr>step := EndValue (?f (last ls)),
              parseState := parseArrayValue ([] @ map ?f (butlast ls)) #
                            [parseObjectValue [] ''tags'']\<rparr>"
    using scan_array_elems [of ls ?s0 "[]" "[parseObjectValue [] ''tags'']"] assms False
    by simp
  moreover have "map ?f (butlast ls) @ [?f (last ls)] = map ?f ls"
  proof -
    have "map ?f (butlast ls @ [last ls]) = map ?f ls" using False by simp
    then show ?thesis by (simp only: map_append list.map)
  qed
  ultimately show ?thesis
    unfolding scan_def foldl_append scan_tags_array_prefix
    by (simp add: scan_eof_def scan_defs)
qed


lemma field_Tags_tags: "field_Tags ''tags''"
  by (simp add: field_Tags_def DecodeRune_def foldRune_def)

lemma scan_empty: "scan [] = StateError"
  by (simp add: scan_text_defs)






lemma tagsJson_of_object:
  assumes "scan md = EndTop (JsObject ms)" "\<not> list_ex range_error (Tags_values ms)"
  shows "tagsJson_of lib md =
           (if Tags_values ms = [] then ''[]''
            else case last (Tags_values ms) of
                   JsString t \<Rightarrow> ''['' @ Quote lib t @ '']''
                 | JsArray a \<Rightarrow> encode lib (JSlice (map valueInterface a))
                 | _ \<Rightarrow> ''[]'')"
proof -
  have "md \<noteq> []" using assms(1) scan_empty by auto
  then show ?thesis
    using assms
    by (cases "last (Tags_values ms)")
       (simp_all add: tagsJson_of_def json_Unmarshal_def json_Marshal_def)
qed

lemma tagsJson_of_tags_string:
  assumes "string_body lit"
  shows "tagsJson_of lib (''{\"tags\":'' @ literal lit @ ''}'') =
           ''['' @ Quote lib (the (unquoteBytes lit)) @ '']''"
  using tagsJson_of_object [OF scan_tags_string [OF assms], of lib]
  by (simp add: Tags_values_def field_Tags_tags)

lemma tagsJson_of_tags_plain:
  assumes "list_all plain t"
  shows "tagsJson_of lib (''{\"tags\":'' @ literal t @ ''}'') = ''['' @ literal t @ '']''"
  using tagsJson_of_tags_string [OF plain_string_body [OF assms], of lib]
    plain_unquoteBytes [OF assms] Quote_plain [OF assms, of lib]
  by simp

lemma htmlSafeSet_string_body: "list_all htmlSafeSet t \<Longrightarrow> string_body t"
proof -
  have "list_all htmlSafeSet t \<Longrightarrow> foldl lex_step LexIn t = LexIn"
    by (induction t) (auto simp add: lex_step_def htmlSafeSet_def)
  then show "list_all htmlSafeSet t \<Longrightarrow> string_body t" by (simp add: string_body_def)
qed

lemma htmlSafeSet_unquoteBytes: "list_all htmlSafeSet t \<Longrightarrow> unquoteBytes t = Some t"
  by (induction t) (auto simp add: htmlSafeSet_def)

lemma htmlSafeSet_appendString: "list_all htmlSafeSet t \<Longrightarrow> appendString t = t"
  by (induction t) (auto simp add: htmlSafeSet_def)

lemma tagsJson_of_tags_array:
  assumes "list_all string_body ls"
  shows "tagsJson_of lib (''{\"tags\":['' @ commas (map literal ls) @ '']}'') =
           ''['' @ commas (map (\<lambda>l. encode_string (the (unquoteBytes l))) ls) @ '']''"
proof -
  have "\<not> list_ex range_error [JsArray (map (\<lambda>l. JsString (the (unquoteBytes l))) ls)]"
    by (simp add: list_ex_iff)
  then show ?thesis
    using tagsJson_of_object [OF scan_tags_array [OF assms], of lib]
    by (simp add: Tags_values_def field_Tags_tags comp_def)
qed

lemma tagsJson_of_tags_safe_array:
  assumes "list_all (list_all htmlSafeSet) ts"
  shows "tagsJson_of lib (''{\"tags\":['' @ commas (map literal ts) @ '']}'') =
           ''['' @ commas (map literal ts) @ '']''"
proof -
  have a: "list_all string_body ts"
    using assms htmlSafeSet_string_body by (auto simp add: list_all_iff)
  have "map (\<lambda>l. encode_string (the (unquoteBytes l))) ts = map literal ts"
    using assms htmlSafeSet_unquoteBytes htmlSafeSet_appendString
    by (auto simp add: list_all_iff encode_string_def literal_def)
  then have "commas (map (\<lambda>l. encode_string (the (unquoteBytes l))) ts) = commas (map literal ts)"
    by (rule arg_cong)
  then show ?thesis using tagsJson_of_tags_array [OF a, of lib] by simp
qed



section \<open>Retrying with backoff\<close>




lemma retry_loop_done:
  "n \<le> i \<Longrightarrow> retry_loop n d operation i e w = (Some (RetryExhausted n e), w)"
  by simp






section \<open>What a retried operation preserves\<close>

declare retry_loop.simps [simp del]

lemma retry_loop_inv:
  assumes "\<And>w e w'. I w \<Longrightarrow> operation w = (e, w') \<Longrightarrow> I w'"
    and "\<And>w d. I w \<Longrightarrow> I (time_Sleep d w)"
    and "I w"
  shows "I (snd (retry_loop n d operation i e w))"
  using assms
proof (induction n d operation i e w rule: retry_loop.induct)
  case (1 maxRetries retryDelay operation i lastErr w)
  note op = "1.prems"(1) and sl = "1.prems"(2) and w = "1.prems"(3)
  show ?case
  proof (cases "i < maxRetries")
    case False
    then show ?thesis using w by (subst retry_loop.simps) simp
  next
    case True
    obtain r w1 where o: "operation w = (r, w1)" by (cases "operation w")
    have w1: "I w1" using op [OF w o] .
    show ?thesis
    proof (cases r)
      case None
      then show ?thesis using True o w1 by (subst retry_loop.simps) simp
    next
      case (Some x)
      have "I (snd (retry_loop maxRetries retryDelay operation (i + 1) (Some x)
                 (time_Sleep (retryDelay * push_bit (nat i) 1) w1)))"
        by (rule "1.IH" [OF True o [symmetric] Some op sl]) (auto intro: sl w1)
      then show ?thesis using True o Some by (subst retry_loop.simps) simp
    qed
  qed
qed

lemma retry_loop_success:
  assumes "\<And>w e w'. I w \<Longrightarrow> operation w = (e, w') \<Longrightarrow> I w'"
    and "\<And>w d. I w \<Longrightarrow> I (time_Sleep d w)"
    and "I w"
    and "retry_loop n d operation i e w = (None, w')"
  shows "\<exists>w0. I w0 \<and> operation w0 = (None, w')"
  using assms
proof (induction n d operation i e w rule: retry_loop.induct)
  case (1 maxRetries retryDelay operation i lastErr w)
  note op = "1.prems"(1) and sl = "1.prems"(2) and w = "1.prems"(3) and res = "1.prems"(4)
  show ?case
  proof (cases "i < maxRetries")
    case False
    then show ?thesis using res by (subst (asm) retry_loop.simps) simp
  next
    case True
    obtain r w1 where o: "operation w = (r, w1)" by (cases "operation w")
    have w1: "I w1" using op [OF w o] .
    show ?thesis
    proof (cases r)
      case None
      then have "w' = w1"
        using True o res by (subst (asm) retry_loop.simps) simp
      then show ?thesis using o None w by blast
    next
      case (Some x)
      have "retry_loop maxRetries retryDelay operation (i + 1) (Some x)
                 (time_Sleep (retryDelay * push_bit (nat i) 1) w1) = (None, w')"
        using True o Some res by (subst (asm) retry_loop.simps) simp
      then show ?thesis
        by (intro "1.IH" [OF True o [symmetric] Some op sl]) (auto intro: sl w1)
    qed
  qed
qed

lemma retryWithBackoff_inv:
  assumes "\<And>w e w'. I w \<Longrightarrow> operation w = (e, w') \<Longrightarrow> I w'"
    and "\<And>w d. I w \<Longrightarrow> I (time_Sleep d w)" and "I w"
  shows "I (snd (retryWithBackoff n d operation w))"
  unfolding retryWithBackoff_def using assms by (rule retry_loop_inv [where I = I])

lemma retryWithBackoff_success:
  assumes "\<And>w e w'. I w \<Longrightarrow> operation w = (e, w') \<Longrightarrow> I w'"
    and "\<And>w d. I w \<Longrightarrow> I (time_Sleep d w)" and "I w"
    and "retryWithBackoff n d operation w = (None, w')"
  shows "\<exists>w0. I w0 \<and> operation w0 = (None, w')"
proof -
  have "retry_loop n d operation 0 None w = (None, w')"
    using assms(4) by (simp add: retryWithBackoff_def)
  with assms(1,2,3) show ?thesis
    by (rule retry_loop_success [where I = I])
qed

lemma retryWithBackoff_first_try:
  assumes "1 \<le> n" "operation w = (None, w')"
  shows "retryWithBackoff n d operation w = (None, w')"
  using assms unfolding retryWithBackoff_def by (subst retry_loop.simps) simp

section \<open>The schema and the prepared insert\<close>

lemma db_call_keeps [simp]:
  "posts (snd (db_call env w)) = posts w" "exec_log (snd (db_call env w)) = exec_log w"
  by (simp_all add: db_call_def)

lemma time_Sleep_keeps [simp]:
  "posts (time_Sleep d w) = posts w" "exec_log (time_Sleep d w) = exec_log w"
  "db_calls (time_Sleep d w) = db_calls w" "requests (time_Sleep d w) = requests w"
  "net_calls (time_Sleep d w) = net_calls w"
  by (simp_all add: time_Sleep_def)

lemma initDB_created_or_absent:
  assumes "created_or_absent w" "initDB env w = (e, w')"
  shows "created_or_absent w'"
  using assms
  by (auto simp: initDB_def db_call_def created_or_absent_def
           split: prod.splits bool.splits option.splits if_splits)

lemma initDB_success_created:
  assumes "created_or_absent w" "initDB env w = (None, w')"
  shows "\<exists>t. posts w' = Some t \<and> columns t = createTableSQL_columns"
  using assms
  by (auto simp: initDB_def db_call_def created_or_absent_def
           split: prod.splits bool.splits option.splits if_splits)

lemma db_Prepare_created_fails:
  assumes "posts w = Some t" "columns t = createTableSQL_columns"
  shows "\<exists>e. fst (db_Prepare env insert_columns w) = Inl e"
  using assms
  by (simp add: db_Prepare_def db_call_def insert_columns_def createTableSQL_columns_def
           split: prod.splits bool.splits)

lemma db_Prepare_keeps [simp]:
  "exec_log (snd (db_Prepare env cols w)) = exec_log w"
  by (simp add: db_Prepare_def db_call_def split: prod.splits bool.splits option.splits list.splits)

text \<open>
  C1. From a first start (no database file) the program never stores a record, whatever
  the environment does: \<open>initDB\<close> creates \<open>posts\<close> with a column \<open>json_metadata\<close> and
  none called \<open>tags\<close>, the insert of \<open>NewBlockProcessor\<close> names \<open>tags\<close>, so that
  preparing it fails and \<open>main\<close> ends in \<open>log.Fatal\<close> before any insert is executed.
\<close>

theorem fresh_store_prepare_fails:
  "''tags'' \<notin> set createTableSQL_columns \<and> ''tags'' \<in> set insert_columns \<and>
   (\<exists>e. fst (main fuel env lib start_state) = Some (Fatal e)) \<and>
   exec_log (snd (main fuel env lib start_state)) = []"
proof -
  let ?cfg = DefaultConfig
  let ?r = "retryWithBackoff (MaxRetries ?cfg) (RetryDelay ?cfg) (initDB env) start_state"
  have start: "created_or_absent start_state"
    by (simp add: created_or_absent_def start_state_def)
  have inv: "created_or_absent (snd ?r)"
  proof (rule retryWithBackoff_inv [where I = created_or_absent])
    show "\<And>w e w'. created_or_absent w \<Longrightarrow> initDB env w = (e, w') \<Longrightarrow> created_or_absent w'"
      by (rule initDB_created_or_absent)
    show "\<And>w d. created_or_absent w \<Longrightarrow> created_or_absent (time_Sleep d w)"
      by (simp add: created_or_absent_def)
    show "created_or_absent start_state" by (rule start)
  qed
  obtain r s1 where r: "?r = (r, s1)" by (cases ?r)
  have log1: "exec_log s1 = []" using inv r by (simp add: created_or_absent_def)
  have main_eq: "(\<exists>e. fst (main fuel env lib start_state) = Some (Fatal e)) \<and>
     exec_log (snd (main fuel env lib start_state)) = []"
  proof (cases r)
    case (Some e)
    then show ?thesis using r log1 by (simp add: main_def Let_def)
  next
    case None
    have "\<exists>w0. created_or_absent w0 \<and> initDB env w0 = (None, s1)"
    proof (rule retryWithBackoff_success [where I = created_or_absent and w = start_state])
      show "\<And>w e w'. created_or_absent w \<Longrightarrow> initDB env w = (e, w') \<Longrightarrow> created_or_absent w'"
        by (rule initDB_created_or_absent)
      show "\<And>w d. created_or_absent w \<Longrightarrow> created_or_absent (time_Sleep d w)"
        by (simp add: created_or_absent_def)
      show "created_or_absent start_state" by (rule start)
      show "?r = (None, s1)" using r None by simp
    qed
    then obtain t where t: "posts s1 = Some t" "columns t = createTableSQL_columns"
      using initDB_success_created by blast
    obtain e where e: "fst (db_Prepare env insert_columns s1) = Inl e"
      using db_Prepare_created_fails [OF t] by blast
    obtain s2 where s2: "db_Prepare env insert_columns s1 = (Inl e, s2)"
      using e by (cases "db_Prepare env insert_columns s1") auto
    have "exec_log s2 = []"
      using db_Prepare_keeps [of env insert_columns s1] s2 log1 by simp
    then show ?thesis
      using r None s2 by (simp add: main_def Let_def NewBlockProcessor_def)
  qed
  moreover have "''tags'' \<notin> set createTableSQL_columns" "''tags'' \<in> set insert_columns"
    by (simp_all add: createTableSQL_columns_def insert_columns_def)
  ultimately show ?thesis by blast
qed

section \<open>The block identifier\<close>

lemma processBlock_short_id:
  assumes "length (BlockNum block) < 8"
  shows "processBlock env lib bp block w =
     (Inl (SliceBoundsOutOfRange 8 (length (BlockNum block))), w)"
  using assms by (simp add: processBlock_def slice_to_def)

lemma processBlock_unparsable_id:
  assumes "8 \<le> length (BlockNum block)"
    and "snd (ParseInt (take 8 (BlockNum block)) 16 32) = Some e"
  shows "processBlock env lib bp block w =
     (Inr (0, Some (Wrapped ''error converting block number from hex'' e)), w)"
  using assms
  by (cases "ParseInt (take 8 (BlockNum block)) 16 32") (simp add: processBlock_def slice_to_def)

lemma processBlock_parsed_id:
  assumes "8 \<le> length (BlockNum block)"
    and "ParseInt (take 8 (BlockNum block)) 16 32 = (n, None)"
  shows "processBlock env lib bp block w =
     (Inr (fst (process_txs env lib bp n (Timestamp block) (Transactions block) 0 w)),
      snd (process_txs env lib bp n (Timestamp block) (Transactions block) 0 w))"
  using assms
  by (cases "process_txs env lib bp n (Timestamp block) (Transactions block) 0 w")
     (simp add: processBlock_def slice_to_def)

text \<open>
  C3. A block whose identifier has fewer than 8 characters, here \<open>abc\<close>: \<open>processBlock\<close>
  does not return an error, the slice \<open>block.BlockNum[:8]\<close> panics; the loop over the
  batch in \<open>main\<close> ends there, with the blocks after it unprocessed.
\<close>

theorem processBlock_short_id_panics:
  "processBlock env lib bp \<lparr>BlockNum = ''abc'', Timestamp = ts, Transactions = txs\<rparr> w =
     (Inl (SliceBoundsOutOfRange 8 3), w) \<and>
   process_blocks env lib bp
     (\<lparr>BlockNum = ''abc'', Timestamp = ts, Transactions = txs\<rparr> # bs) batchInserts s =
     (Inl (SliceBoundsOutOfRange 8 3), s)"
  by (simp add: processBlock_def slice_to_def)

section \<open>Which operations become posts\<close>

lemma process_ops_filter:
  "process_ops env lib bp n ts ops c w =
     process_ops env lib bp n ts (filter is_top_level_post ops) c w"
  by (induction ops arbitrary: c w)
     (simp_all add: is_top_level_post_def split: prod.splits option.splits)

lemma process_ops_append:
  "process_ops env lib bp n ts (xs @ ys) c w =
     (case process_ops env lib bp n ts xs c w of
        ((m, Some e), w1) \<Rightarrow> ((m, Some e), w1)
      | ((m, None), w1) \<Rightarrow> process_ops env lib bp n ts ys m w1)"
  by (induction xs arbitrary: c w) (simp_all split: prod.splits option.splits)

lemma process_txs_concat:
  "process_txs env lib bp n ts txs c w =
     process_ops env lib bp n ts (concat (map Operations txs)) c w"
  by (induction txs arbitrary: c w)
     (simp_all add: process_ops_append split: prod.splits option.splits)

lemma process_txs_top_level:
  "process_txs env lib bp n ts txs c w =
     process_txs env lib bp n ts [\<lparr>Operations = filter is_top_level_post (concat (map Operations txs))\<rparr>] c w"
  by (simp add: process_txs_concat process_ops_filter [symmetric])

lemma stmt_Exec_no_fault:
  assumes "\<not> db_fails env (db_calls w)" "posts w \<noteq> None"
  shows "\<exists>w'. stmt_Exec env st vals w = (None, w') \<and> exec_log w' = exec_log w @ [vals] \<and>
     posts w' \<noteq> None"
  using assms by (auto simp: stmt_Exec_def db_call_def Let_def split: option.splits)

lemma process_ops_no_faults:
  assumes "no_db_faults env" "1 \<le> MaxRetries (config bp)"
  shows "posts w \<noteq> None \<Longrightarrow>
     \<exists>w'. process_ops env lib bp n ts ops c w =
             ((c + int (length (filter is_top_level_post ops)), None), w') \<and>
          exec_log w' =
            exec_log w @ map (\<lambda>op. post_values lib n ts (Value op)) (filter is_top_level_post ops) \<and>
          posts w' \<noteq> None"
proof (induction ops arbitrary: c w)
  case Nil
  then show ?case by simp
next
  case (Cons op ops)
  show ?case
  proof (cases "is_top_level_post op")
    case False
    then have "Type op \<noteq> ''comment_operation'' \<or> ParentAuthor (Value op) \<noteq> []"
      by (simp add: is_top_level_post_def)
    then show ?thesis
      using False Cons.IH [OF Cons.prems, of c] by auto
  next
    case True
    have "\<not> db_fails env (db_calls w)" using assms(1) by (simp add: no_db_faults_def)
    then obtain w1 where w1:
      "stmt_Exec env (stmt bp) (post_values lib n ts (Value op)) w = (None, w1)"
      "exec_log w1 = exec_log w @ [post_values lib n ts (Value op)]" "posts w1 \<noteq> None"
      using stmt_Exec_no_fault [OF _ Cons.prems] by blast
    have r: "retryWithBackoff (MaxRetries (config bp)) (RetryDelay (config bp))
        (stmt_Exec env (stmt bp) (post_values lib n ts (Value op))) w = (None, w1)"
      using assms(2) w1(1) by (rule retryWithBackoff_first_try)
    obtain w' where w':
      "process_ops env lib bp n ts ops (c + 1) w1 =
         ((c + 1 + int (length (filter is_top_level_post ops)), None), w')"
      "exec_log w' =
         exec_log w1 @ map (\<lambda>op. post_values lib n ts (Value op)) (filter is_top_level_post ops)"
      "posts w' \<noteq> None"
      using Cons.IH [OF w1(3), of "c + 1"] by blast
    have t: "Type op = ''comment_operation''" "ParentAuthor (Value op) = []"
      using True by (simp_all add: is_top_level_post_def)
    show ?thesis
      using True t r w' w1(2) by simp
  qed
qed

text \<open>
  C2, amended. \<open>processBlock\<close> gives the same result and leaves the same state as on the
  block that holds only its top-level posts, the operations of kind exactly
  \<open>comment_operation\<close> with an empty parent author: every other operation, and every reply,
  builds no record and causes no failure. When no database call fails (and the table is
  there, with at least one attempt configured), a block with a well-formed identifier
  gives exactly one insert for each top-level post, in the order of the block, and their
  number as its count.
\<close>

theorem processBlock_top_level_posts:
  "processBlock env lib bp block w =
     processBlock env lib bp (block\<lparr>Transactions := [\<lparr>Operations = top_level_posts block\<rparr>]\<rparr>) w \<and>
   (well_formed_id block \<and> no_db_faults env \<and> posts w \<noteq> None \<and> 1 \<le> MaxRetries (config bp) \<longrightarrow>
      (\<exists>w'. processBlock env lib bp block w =
               (Inr (int (length (top_level_posts block)), None), w') \<and>
            exec_log w' =
              exec_log w @
              map (\<lambda>op. post_values lib (block_height block) (Timestamp block) (Value op))
                (top_level_posts block)))"
proof (intro conjI impI)
  show "processBlock env lib bp block w =
     processBlock env lib bp (block\<lparr>Transactions := [\<lparr>Operations = top_level_posts block\<rparr>]\<rparr>) w"
    unfolding processBlock_def top_level_posts_def block_ops_def
    by (simp add: process_txs_top_level [of _ _ _ _ _ "Transactions block"]
             split: sum.splits prod.splits option.splits)
next
  assume a: "well_formed_id block \<and> no_db_faults env \<and> posts w \<noteq> None \<and>
     1 \<le> MaxRetries (config bp)"
  obtain n where n: "ParseInt (take 8 (BlockNum block)) 16 32 = (n, None)"
    "8 \<le> length (BlockNum block)"
    using a by (cases "ParseInt (take 8 (BlockNum block)) 16 32") (auto simp: well_formed_id_def)
  have h: "block_height block = n" using n by (simp add: block_height_def)
  obtain w' where w':
    "process_ops env lib bp n (Timestamp block) (block_ops block) 0 w =
       ((0 + int (length (top_level_posts block)), None), w')"
    "exec_log w' =
       exec_log w @ map (\<lambda>op. post_values lib n (Timestamp block) (Value op)) (top_level_posts block)"
    using process_ops_no_faults [of env bp w lib n "Timestamp block" "block_ops block" 0] a
    unfolding top_level_posts_def by blast
  have "processBlock env lib bp block w = (Inr (int (length (top_level_posts block)), None), w')"
    using processBlock_parsed_id [OF n(2) n(1), of env lib bp w] w'(1)
    by (simp add: process_txs_concat block_ops_def)
  then show "\<exists>w'. processBlock env lib bp block w =
               (Inr (int (length (top_level_posts block)), None), w') \<and>
            exec_log w' =
              exec_log w @
              map (\<lambda>op. post_values lib (block_height block) (Timestamp block) (Value op))
                (top_level_posts block)"
    using w'(2) h by blast
qed

lemma example_block_id:
  "8 \<le> length (BlockNum example_block)"
  "ParseInt (take 8 (BlockNum example_block)) 16 32 = (103, None)"
  by (simp_all add: example_block_def ParseInt_def ParseUint_def digit_val_def)

lemma example_block_posts: "top_level_posts example_block = [example_post]"
  by (simp add: top_level_posts_def block_ops_def is_top_level_post_def example_block_def
        example_post_def example_reply_def example_vote_def)

lemma example_post_values:
  "post_values example_lib 103 ''2020-03-01T12:00:00'' (Value example_post) =
     [SText ''@alice/hello'', SText ''alice'', SText ''hello'', SText ''Hello'',
      SText ''[\"a\",\"b\"]'', SInt 103, SText ''2020-03-01T12:00:00'']"
proof -
  have "list_all (list_all htmlSafeSet) [''a'', ''b'']"
    by (simp add: htmlSafeSet_def dquote_def backslash_def)
  then have "tagsJson_of example_lib ''{\"tags\":[\"a\",\"b\"]}'' = ''[\"a\",\"b\"]''"
    using tagsJson_of_tags_safe_array [of "[''a'', ''b'']" example_lib]
    by (simp add: literal_def dquote_def)
  then show ?thesis
    by (simp add: post_values_def example_post_def constructAuthorPerm_def)
qed

text \<open>
  The example block on the ready database: the vote and the reply are passed over, the
  post is the one insert, with the tags of its metadata and the height 103.
\<close>

theorem processBlock_top_level_posts_witness:
  "well_formed_id example_block \<and> no_db_faults quiet_env \<and> posts ready_state \<noteq> None \<and>
   1 \<le> MaxRetries (config example_bp) \<and>
   fst (processBlock quiet_env example_lib example_bp example_block ready_state) =
     Inr (1, None) \<and>
   exec_log (snd (processBlock quiet_env example_lib example_bp example_block ready_state)) =
     [[SText ''@alice/hello'', SText ''alice'', SText ''hello'', SText ''Hello'',
       SText ''[\"a\",\"b\"]'', SInt 103, SText ''2020-03-01T12:00:00'']]"
proof -
  have wf: "well_formed_id example_block"
    using example_block_id by (simp add: well_formed_id_def)
  have nf: "no_db_faults quiet_env" by (simp add: no_db_faults_def quiet_env_def)
  have p: "posts ready_state \<noteq> None" by (simp add: ready_state_def)
  have m: "1 \<le> MaxRetries (config example_bp)" by (simp add: example_bp_def DefaultConfig_def)
  have h: "block_height example_block = 103"
    using example_block_id by (simp add: block_height_def)
  have ts: "Timestamp example_block = ''2020-03-01T12:00:00''" by (simp add: example_block_def)
  have l: "exec_log ready_state = []" by (simp add: ready_state_def start_state_def)
  from processBlock_top_level_posts [of quiet_env example_lib example_bp example_block ready_state]
  obtain w' where
    "processBlock quiet_env example_lib example_bp example_block ready_state =
       (Inr (int (length (top_level_posts example_block)), None), w')"
    "exec_log w' = exec_log ready_state @
       map (\<lambda>op. post_values example_lib (block_height example_block) (Timestamp example_block)
              (Value op)) (top_level_posts example_block)"
    using wf nf p m by blast
  then show ?thesis
    using wf nf p m by (simp add: example_block_posts h ts l example_post_values)
qed

text \<open>
  C2 as stated fails: an operation of kind exactly \<open>comment\<close> with an empty parent author
  builds no record. \<open>processBlock\<close> returns the count 0 and executes no insert.
\<close>

theorem comment_kind_builds_no_record:
  "map Type (block_ops comment_kind_block) = [''comment''] \<and>
   map (\<lambda>op. ParentAuthor (Value op)) (block_ops comment_kind_block) = [''''] \<and>
   processBlock quiet_env example_lib example_bp comment_kind_block ready_state =
     (Inr (0, None), ready_state)"
  by (simp add: block_ops_def comment_kind_block_def example_post_def processBlock_def
        slice_to_def ParseInt_def ParseUint_def digit_val_def)

section \<open>Tag normalization\<close>




section \<open>What processing a block leaves alone\<close>

lemma db_only_refl [simp]: "db_only w w"
  by (simp add: db_only_def)

lemma db_only_trans: "db_only w w1 \<Longrightarrow> db_only w1 w2 \<Longrightarrow> db_only w w2"
  by (simp add: db_only_def)

lemma db_only_Sleep: "db_only w w1 \<Longrightarrow> db_only w (time_Sleep d w1)"
  by (simp add: db_only_def time_Sleep_def)

lemma db_only_stmt_Exec:
  assumes "db_only w w1" "stmt_Exec env st vals w1 = (e, w2)"
  shows "db_only w w2"
  using assms
  by (auto simp: stmt_Exec_def db_call_def db_only_def Let_def
           split: option.splits if_splits bool.splits)

lemma db_only_eq:
  assumes "db_only w w'"
  shows "w' = w\<lparr>slept := slept w', posts := posts w', db_calls := db_calls w',
                 exec_log := exec_log w'\<rparr>"
  using assms by (intro world.equality) (simp_all add: db_only_def)

lemma db_only_retry_Exec:
  "db_only w (snd (retryWithBackoff n d (stmt_Exec env st vals) w))"
  by (rule retryWithBackoff_inv [where I = "db_only w"])
     (auto intro: db_only_stmt_Exec db_only_Sleep)

lemma db_only_process_ops:
  "db_only w (snd (process_ops env lib bp n ts ops c w))"
proof (induction ops arbitrary: c w)
  case Nil
  show ?case by simp
next
  case (Cons op ops)
  let ?r = "retryWithBackoff (MaxRetries (config bp)) (RetryDelay (config bp))
     (stmt_Exec env (stmt bp) (post_values lib n ts (Value op))) w"
  have r: "db_only w (snd ?r)" by (rule db_only_retry_Exec)
  have "db_only w (snd (process_ops env lib bp n ts ops (c + 1) (snd ?r)))"
    by (rule db_only_trans [OF r Cons.IH])
  then show ?case
    using r Cons.IH [of w c] by (cases ?r) (auto split: option.splits)
qed

lemma db_only_process_txs:
  "db_only w (snd (process_txs env lib bp n ts txs c w))"
  by (simp add: process_txs_concat db_only_process_ops)

lemma db_only_processBlock:
  "db_only w (snd (processBlock env lib bp block w))"
proof (cases "slice_to 8 (BlockNum block)")
  case (Inl p)
  then show ?thesis by (simp add: processBlock_def)
next
  case (Inr hex)
  obtain n e where p: "ParseInt hex 16 32 = (n, e)" by (cases "ParseInt hex 16 32")
  show ?thesis
  proof (cases e)
    case (Some x)
    then show ?thesis using Inr p by (simp add: processBlock_def)
  next
    case None
    have "snd (processBlock env lib bp block w) =
        snd (process_txs env lib bp n (Timestamp block) (Transactions block) 0 w)"
      using Inr p None by (simp add: processBlock_def split: prod.splits)
    then show ?thesis by (simp add: db_only_process_txs)
  qed
qed

lemma db_only_main_fields:
  assumes "db_only s s'"
  shows "requests s' = requests s" "net_calls s' = net_calls s"
    "currentBlock s' = currentBlock s" "lastProcessed s' = lastProcessed s"
    "blocks s' = blocks s" "variance s' = variance s"
    "totalProcessed s' = totalProcessed s" "totalInserts s' = totalInserts s"
    "progress s' = progress s"
  by (subst db_only_eq [OF assms], simp)+

section \<open>The batch loop and the fetch\<close>

lemma process_blocks_append:
  "process_blocks env lib bp (xs @ ys) n s =
     (case process_blocks env lib bp xs n s of
        (Inl p, s1) \<Rightarrow> (Inl p, s1)
      | (Inr m, s1) \<Rightarrow> process_blocks env lib bp ys m s1)"
  by (induction xs arbitrary: n s)
     (simp_all split: prod.splits sum.splits option.splits)

text \<open>One block of the batch: the four ways it can go.\<close>

lemma process_blocks_Cons_cases:
  obtains
    (skip) "BlockNum block = ''0''"
      and "process_blocks env lib bp (block # bs) n s = process_blocks env lib bp bs n s"
  | (panic) p s1 where "BlockNum block \<noteq> ''0''" and "db_only s s1"
      and "processBlock env lib bp block s = (Inl p, s1)"
      and "process_blocks env lib bp (block # bs) n s = (Inl p, s1)"
  | (failed) c e s1 where "BlockNum block \<noteq> ''0''" and "db_only s s1"
      and "processBlock env lib bp block s = (Inr (c, Some e), s1)"
      and "process_blocks env lib bp (block # bs) n s = process_blocks env lib bp bs n s1"
  | (ok) c s1 where "BlockNum block \<noteq> ''0''" and "db_only s s1" and "well_formed_id block"
      and "processBlock env lib bp block s = (Inr (c, None), s1)"
      and "process_blocks env lib bp (block # bs) n s =
         process_blocks env lib bp bs (n + c)
           (s1\<lparr>lastProcessed := block_height block, totalProcessed := totalProcessed s1 + 1\<rparr>)"
proof (cases "BlockNum block = ''0''")
  case True
  then show ?thesis by (intro skip) simp_all
next
  case False
  obtain r s1 where r: "processBlock env lib bp block s = (r, s1)"
    by (cases "processBlock env lib bp block s")
  have d: "db_only s s1" using db_only_processBlock [of s env lib bp block] r by simp
  show ?thesis
  proof (cases r)
    case (Inl p)
    have "processBlock env lib bp block s = (Inl p, s1)" using r Inl by simp
    moreover have "process_blocks env lib bp (block # bs) n s = (Inl p, s1)"
      using False r Inl by simp
    ultimately show ?thesis using False d by (rule panic [rotated 2])
  next
    case (Inr ce)
    obtain c e where ce: "ce = (c, e)" by (cases ce)
    show ?thesis
    proof (cases e)
      case (Some x)
      have "processBlock env lib bp block s = (Inr (c, Some x), s1)"
        using r Inr ce Some by simp
      moreover have "process_blocks env lib bp (block # bs) n s =
          process_blocks env lib bp bs n s1"
        using False r Inr ce Some by simp
      ultimately show ?thesis using False d by (rule failed [rotated 2])
    next
      case None
      have l: "8 \<le> length (BlockNum block)"
        using r Inr by (auto simp: processBlock_def slice_to_def split: if_splits)
      have "snd (ParseInt (take 8 (BlockNum block)) 16 32) = None"
        using r Inr ce None l
        by (auto simp: processBlock_def slice_to_def split: prod.splits option.splits)
      then have wf: "well_formed_id block" using l by (simp add: well_formed_id_def)
      have "processBlock env lib bp block s = (Inr (c, None), s1)"
        using r Inr ce None by simp
      moreover have "process_blocks env lib bp (block # bs) n s =
         process_blocks env lib bp bs (n + c)
           (s1\<lparr>lastProcessed := block_height block, totalProcessed := totalProcessed s1 + 1\<rparr>)"
        using False r Inr ce None l by (simp add: slice_to_def block_height_def)
      ultimately show ?thesis using False d wf by (rule ok [rotated 3])
    qed
  qed
qed

lemma process_blocks_fields:
  "requests (snd (process_blocks env lib bp bs n s)) = requests s \<and>
   net_calls (snd (process_blocks env lib bp bs n s)) = net_calls s \<and>
   currentBlock (snd (process_blocks env lib bp bs n s)) = currentBlock s \<and>
   blocks (snd (process_blocks env lib bp bs n s)) = blocks s \<and>
   variance (snd (process_blocks env lib bp bs n s)) = variance s \<and>
   totalInserts (snd (process_blocks env lib bp bs n s)) = totalInserts s \<and>
   progress (snd (process_blocks env lib bp bs n s)) = progress s"
proof (induction bs arbitrary: n s)
  case Nil
  show ?case by simp
next
  case (Cons block bs)
  show ?case
  proof (cases rule: process_blocks_Cons_cases [of block env lib bp bs n s])
    case skip
    then show ?thesis using Cons.IH [of n s] by simp
  next
    case (panic p s1)
    then show ?thesis using db_only_main_fields [OF panic(2)] by simp
  next
    case (failed c e s1)
    then show ?thesis using db_only_main_fields [OF failed(2)] Cons.IH [of n s1] by simp
  next
    case (ok c s1)
    then show ?thesis
      using db_only_main_fields [OF ok(2)]
        Cons.IH [of "n + c" "s1\<lparr>lastProcessed := block_height block,
          totalProcessed := totalProcessed s1 + 1\<rparr>"]
      by simp
  qed
qed

text \<open>
  The retried fetch repeats one request, at least once when an attempt is configured, and
  leaves the database and the progress of \<open>main\<close> as they are.
\<close>

lemma fetch_op_effect:
  assumes "fetch_op env st c s = (e, s1)"
  shows "requests s1 = requests s @ [(st, c)]" "lastProcessed s1 = lastProcessed s"
    "currentBlock s1 = currentBlock s" "posts s1 = posts s" "variance s1 = variance s"
    "totalProcessed s1 = totalProcessed s" "totalInserts s1 = totalInserts s"
    "progress s1 = progress s" "exec_log s1 = exec_log s" "db_calls s1 = db_calls s"
  using assms by (auto simp: fetch_op_def getBlockRange_def split: sum.splits)

lemma fetch_op_blocks:
  assumes "fetch_op env st c s = (None, s1)"
  shows "block_range env (net_calls s) st c = Inr (blocks s1)"
  using assms by (auto simp: fetch_op_def getBlockRange_def split: sum.splits)

lemma time_Sleep_main_fields [simp]:
  "lastProcessed (time_Sleep d s) = lastProcessed s"
  "currentBlock (time_Sleep d s) = currentBlock s" "variance (time_Sleep d s) = variance s"
  "totalProcessed (time_Sleep d s) = totalProcessed s"
  "totalInserts (time_Sleep d s) = totalInserts s" "progress (time_Sleep d s) = progress s"
  "blocks (time_Sleep d s) = blocks s"
  by (simp_all add: time_Sleep_def)

lemma retry_fetch_fields:
  fixes s s1 :: main_state
  assumes "s1 = snd (retryWithBackoff n d (fetch_op env st c) s)"
  shows "lastProcessed s1 = lastProcessed s \<and> currentBlock s1 = currentBlock s \<and>
     posts s1 = posts s \<and> variance s1 = variance s \<and> totalProcessed s1 = totalProcessed s \<and>
     totalInserts s1 = totalInserts s \<and> progress s1 = progress s \<and>
     exec_log s1 = exec_log s \<and> db_calls s1 = db_calls s"
  unfolding assms
  by (rule retryWithBackoff_inv
        [where I = "\<lambda>w. lastProcessed w = lastProcessed s \<and> currentBlock w = currentBlock s \<and>
           posts w = posts s \<and> variance w = variance s \<and> totalProcessed w = totalProcessed s \<and>
           totalInserts w = totalInserts s \<and> progress w = progress s \<and>
           exec_log w = exec_log s \<and> db_calls w = db_calls s"])
     (auto dest: fetch_op_effect)

lemma retry_loop_fetch_requests:
  assumes "\<exists>k\<ge>m. requests w = rs @ replicate k (st, c)"
  shows "\<exists>k\<ge>m. requests (snd (retry_loop n d (fetch_op env st c) i e w)) =
     rs @ replicate k (st, c)"
proof (rule retry_loop_inv [where I = "\<lambda>w. \<exists>k\<ge>m. requests w = rs @ replicate k (st, c)"])
  fix w :: main_state and e w'
  assume "\<exists>k\<ge>m. requests w = rs @ replicate k (st, c)" "fetch_op env st c w = (e, w')"
  then obtain k where "k \<ge> m" "requests w' = rs @ replicate (Suc k) (st, c)"
    using fetch_op_effect(1) [of env st c w e w'] by (auto simp: replicate_append_same)
  then show "\<exists>k\<ge>m. requests w' = rs @ replicate k (st, c)"
    using le_Suc_eq by blast
qed (use assms in auto)

lemma retry_fetch_requests:
  fixes s :: main_state
  shows "\<exists>k. requests (snd (retryWithBackoff n d (fetch_op env st c) s)) =
       requests s @ replicate k (st, c) \<and> (1 \<le> n \<longrightarrow> 1 \<le> k)"
proof (cases "1 \<le> n")
  case False
  have "\<exists>k\<ge>0. requests (snd (retry_loop n d (fetch_op env st c) 0 None s)) =
     requests s @ replicate k (st, c)"
    by (rule retry_loop_fetch_requests) (auto intro: exI [of _ 0])
  then show ?thesis using False by (auto simp: retryWithBackoff_def)
next
  case True
  obtain e s1 where o: "fetch_op env st c s = (e, s1)" by (cases "fetch_op env st c s")
  have one: "\<exists>k\<ge>1. requests s1 = requests s @ replicate k (st, c)"
    using fetch_op_effect(1) [OF o] by (auto intro: exI [of _ 1])
  show ?thesis
  proof (cases e)
    case None
    then have "retryWithBackoff n d (fetch_op env st c) s = (None, s1)"
      using True o by (intro retryWithBackoff_first_try) auto
    then show ?thesis using one by auto
  next
    case (Some x)
    have "retryWithBackoff n d (fetch_op env st c) s =
        retry_loop n d (fetch_op env st c) 1 (Some x) (time_Sleep (d * push_bit (nat 0) 1) s1)"
      using True o Some unfolding retryWithBackoff_def by (subst retry_loop.simps) simp
    moreover have "\<exists>k\<ge>1. requests (snd (retry_loop n d (fetch_op env st c) 1 (Some x)
        (time_Sleep (d * push_bit (nat 0) 1) s1))) = requests s @ replicate k (st, c)"
      by (rule retry_loop_fetch_requests) (use one in simp)
    ultimately show ?thesis by auto
  qed
qed

lemma loop_body_requests:
  "\<exists>k. requests (snd (loop_body env lib bp cfg s)) =
       requests s @
       replicate k (lastProcessed s + 1, batch_count cfg (currentBlock s) (lastProcessed s + 1)) \<and>
     (1 \<le> MaxRetries cfg \<longrightarrow> 1 \<le> k)"
proof -
  let ?st = "lastProcessed s + 1"
  let ?c = "batch_count cfg (currentBlock s) ?st"
  let ?r = "retryWithBackoff (MaxRetries cfg) (RetryDelay cfg) (fetch_op env ?st ?c)
     (s\<lparr>blocks := []\<rparr>)"
  obtain e s1 where r: "?r = (e, s1)" by (cases ?r)
  obtain k where k: "requests s1 = requests s @ replicate k (?st, ?c)"
    "1 \<le> MaxRetries cfg \<longrightarrow> 1 \<le> k"
    using retry_fetch_requests [of "MaxRetries cfg" "RetryDelay cfg" env ?st ?c "s\<lparr>blocks := []\<rparr>"] r
    by auto
  have "requests (snd (loop_body env lib bp cfg s)) = requests s1"
    using r process_blocks_fields [of env lib bp "blocks s1" 0 s1]
    by (cases e; cases "process_blocks env lib bp (blocks s1) 0 s1")
       (auto simp: loop_body_def Let_def split: sum.splits)
  then show ?thesis using k by auto
qed

section \<open>The range of a batch\<close>

lemma int64_in_range: "- (2 ^ 63) \<le> x \<Longrightarrow> x < 2 ^ 63 \<Longrightarrow> int64 x = x"
  by (simp add: int64_def)

lemma int64_overflow: "2 ^ 63 \<le> x \<Longrightarrow> x < 2 ^ 64 \<Longrightarrow> int64 x = x - 2 ^ 64"
proof -
  assume a: "2 ^ 63 \<le> x" "x < 2 ^ 64"
  have "(x + 2 ^ 63) mod 2 ^ 64 = (x + 2 ^ 63 - 2 ^ 64) mod 2 ^ 64"
    by (simp only: minus_mod_self2)
  also have "\<dots> = x + 2 ^ 63 - 2 ^ 64"
    using a by (intro mod_pos_pos_trivial) simp_all
  finally show ?thesis by (simp add: int64_def)
qed

lemma batch_count_min:
  assumes "- (2 ^ 63) \<le> start - 1" "start - 1 < target" "target < 2 ^ 63"
    and "1 \<le> BatchSize cfg" "BatchSize cfg < 2 ^ 63" "start + BatchSize cfg < 2 ^ 63"
  shows "batch_count cfg target start = min (BatchSize cfg) (target - start + 1)"
proof -
  have s: "int64 (start + BatchSize cfg) = start + BatchSize cfg"
    using assms by (intro int64_in_range) simp_all
  show ?thesis
  proof (cases "start + BatchSize cfg > target")
    case True
    have "int64 (target - start) = target - start"
      using assms True by (intro int64_in_range) simp_all
    moreover have "int64 (target - start + 1) = target - start + 1"
      using assms True by (intro int64_in_range) simp_all
    ultimately show ?thesis using True s by (simp add: batch_count_def Let_def min_def)
  next
    case False
    then show ?thesis using s by (simp add: batch_count_def Let_def min_def)
  qed
qed

lemma batch_count_wrapped:
  assumes "start - 1 < target" "target < 2 ^ 63"
    and "BatchSize cfg < 2 ^ 63" "2 ^ 63 \<le> start + BatchSize cfg"
  shows "batch_count cfg target start = BatchSize cfg"
proof -
  have "int64 (start + BatchSize cfg) = start + BatchSize cfg - 2 ^ 64"
    using assms by (intro int64_overflow) simp_all
  then have "\<not> int64 (start + BatchSize cfg) > target"
    using assms by simp
  then show ?thesis by (simp add: batch_count_def Let_def)
qed

text \<open>
  C8, amended. One pass of the loop from a state with last processed block
  \<open>lastProcessed s\<close> below the target \<open>currentBlock s\<close> and a batch size \<open>b \<ge> 1\<close>, all of
  them values of Go's \<open>int\<close>: every \<open>getBlockRange\<close> request of the pass (one for each
  attempt of the retried fetch, at least one when an attempt is configured) asks for the
  start \<open>lastProcessed s + 1\<close> and for the count the code computes. That count is
  \<open>min b (target - start + 1)\<close> as long as \<open>start + b\<close> does not pass the greatest
  \<open>int\<close>, \<open>2 ^ 63 - 1\<close>; beyond it the sum wraps around to a negative number and the
  count is \<open>b\<close> itself.
\<close>

theorem batch_fetch_range:
  "- (2 ^ 63) \<le> lastProcessed s \<and> lastProcessed s < currentBlock s \<and> currentBlock s < 2 ^ 63 \<and>
   1 \<le> BatchSize cfg \<and> BatchSize cfg < 2 ^ 63 \<longrightarrow>
     (lastProcessed s + 1 + BatchSize cfg < 2 ^ 63 \<longrightarrow>
        batch_count cfg (currentBlock s) (lastProcessed s + 1) =
          min (BatchSize cfg) (currentBlock s - (lastProcessed s + 1) + 1)) \<and>
     (2 ^ 63 \<le> lastProcessed s + 1 + BatchSize cfg \<longrightarrow>
        batch_count cfg (currentBlock s) (lastProcessed s + 1) = BatchSize cfg) \<and>
     (\<exists>k. requests (snd (loop_body env lib bp cfg s)) =
            requests s @
            replicate k (lastProcessed s + 1,
              batch_count cfg (currentBlock s) (lastProcessed s + 1)) \<and>
          (1 \<le> MaxRetries cfg \<longrightarrow> 1 \<le> k))"
proof (intro impI conjI)
  assume a: "- (2 ^ 63) \<le> lastProcessed s \<and> lastProcessed s < currentBlock s \<and>
    currentBlock s < 2 ^ 63 \<and> 1 \<le> BatchSize cfg \<and> BatchSize cfg < 2 ^ 63"
  show "batch_count cfg (currentBlock s) (lastProcessed s + 1) =
          min (BatchSize cfg) (currentBlock s - (lastProcessed s + 1) + 1)"
    if "lastProcessed s + 1 + BatchSize cfg < 2 ^ 63"
    using a that by (intro batch_count_min) simp_all
  show "batch_count cfg (currentBlock s) (lastProcessed s + 1) = BatchSize cfg"
    if "2 ^ 63 \<le> lastProcessed s + 1 + BatchSize cfg"
    using a that by (intro batch_count_wrapped) simp_all
  show "\<exists>k. requests (snd (loop_body env lib bp cfg s)) =
            requests s @
            replicate k (lastProcessed s + 1,
              batch_count cfg (currentBlock s) (lastProcessed s + 1)) \<and>
          (1 \<le> MaxRetries cfg \<longrightarrow> 1 \<le> k)"
    by (rule loop_body_requests)
qed

text \<open>
  Last processed block 100, target 103, batch size 1000: the requests of the pass all ask
  for 3 blocks from 101. With the batch size \<open>2 ^ 63 - 1\<close> the count is that batch size.
\<close>

theorem batch_fetch_range_witness:
  "set (requests (snd (loop_body quiet_env example_lib example_bp DefaultConfig
      (ready_state\<lparr>currentBlock := 103, lastProcessed := 100\<rparr>)))) = {(101, 3)} \<and>
   batch_count (DefaultConfig\<lparr>BatchSize := 9223372036854775807\<rparr>) 103 101 =
     9223372036854775807"
proof -
  let ?s = "ready_state\<lparr>currentBlock := 103, lastProcessed := 100\<rparr>"
  let ?big = "DefaultConfig\<lparr>BatchSize := 9223372036854775807\<rparr>"
  have r: "requests ?s = []" by (simp add: ready_state_def start_state_def)
  have m: "1 \<le> MaxRetries DefaultConfig" "BatchSize DefaultConfig = 1000"
    by (simp_all add: DefaultConfig_def)
  have "batch_count DefaultConfig (currentBlock ?s) (lastProcessed ?s + 1) =
      min (BatchSize DefaultConfig) (currentBlock ?s - (lastProcessed ?s + 1) + 1)"
    using batch_fetch_range [of ?s DefaultConfig quiet_env example_lib example_bp] m(2) by simp
  then have c: "batch_count DefaultConfig (currentBlock ?s) (lastProcessed ?s + 1) = 3"
    using m(2) by simp
  obtain k where
    "requests (snd (loop_body quiet_env example_lib example_bp DefaultConfig ?s)) =
       requests ?s @ replicate k (lastProcessed ?s + 1,
         batch_count DefaultConfig (currentBlock ?s) (lastProcessed ?s + 1))"
    "1 \<le> k"
    using batch_fetch_range [of ?s DefaultConfig quiet_env example_lib example_bp] m by auto
  then have "set (requests (snd (loop_body quiet_env example_lib example_bp DefaultConfig ?s))) =
      {(101, 3)}"
    using r c by simp
  moreover have "batch_count ?big 103 101 = 9223372036854775807"
    using batch_fetch_range [of ?s ?big quiet_env example_lib example_bp] by simp
  ultimately show ?thesis by simp
qed

text \<open>
  C8 as stated fails: with the batch size \<open>2 ^ 63 - 1\<close>, last processed block 100 and
  target 103, the sum \<open>101 + b\<close> wraps around, so the count requested is the batch size
  and not the minimum 3.
\<close>

theorem batch_count_overflow:
  "batch_count (DefaultConfig\<lparr>BatchSize := 9223372036854775807\<rparr>) 103 (100 + 1) =
     9223372036854775807 \<and>
   min (9223372036854775807 :: int) (103 - (100 + 1) + 1) = 3"
  by (simp add: batch_count_def int64_def Let_def)

section \<open>Where the run resumes\<close>










lemma stored_block_nums:
  "posts stored_state =
     Some \<lparr>columns = ''_id'' # insert_columns,
           rows = [(''_id'', SInt 1) #
                   zip insert_columns
                     (post_values example_lib 103 ''2020-03-01T12:00:00'' (Value example_post))],
           last_id = 1\<rparr>"
  "block_nums \<lparr>columns = ''_id'' # insert_columns,
           rows = [(''_id'', SInt 1) #
                   zip insert_columns
                     (post_values example_lib 103 ''2020-03-01T12:00:00'' (Value example_post))],
           last_id = 1\<rparr> = map SInt [103]"
  by (simp_all add: stored_state_def ready_state_def block_nums_def insert_columns_def
        post_values_def)



section \<open>The reported percentage\<close>






section \<open>Posts that are already stored\<close>

lemma stmt_Exec_conflict:
  assumes "\<not> db_fails env (db_calls w)" "posts w = Some t" "already_stored t op"
  shows "fst (stmt_Exec env insert_columns (post_values lib n ts (Value op)) w) = None \<and>
     posts (snd (stmt_Exec env insert_columns (post_values lib n ts (Value op)) w)) = Some t"
proof -
  have "url_conflict t (zip insert_columns (post_values lib n ts (Value op)))"
    using assms(3)
    by (simp add: url_conflict_def already_stored_def insert_columns_def post_values_def)
  then show ?thesis
    using assms(1,2) by (simp add: stmt_Exec_def db_call_def Let_def)
qed

lemma process_ops_stored:
  assumes "no_db_faults env" "1 \<le> MaxRetries (config bp)" "stmt bp = insert_columns"
  shows "posts w = Some t \<Longrightarrow>
     (\<And>op. op \<in> set ops \<Longrightarrow> is_top_level_post op \<Longrightarrow> already_stored t op) \<Longrightarrow>
     \<exists>w'. process_ops env lib bp n ts ops c w =
             ((c + int (length (filter is_top_level_post ops)), None), w') \<and>
          posts w' = Some t"
proof (induction ops arbitrary: c w)
  case Nil
  then show ?case by simp
next
  case (Cons op ops)
  have rest: "\<And>op. op \<in> set ops \<Longrightarrow> is_top_level_post op \<Longrightarrow> already_stored t op"
    using Cons.prems(2) by simp
  show ?case
  proof (cases "is_top_level_post op")
    case False
    then have "Type op \<noteq> ''comment_operation'' \<or> ParentAuthor (Value op) \<noteq> []"
      by (simp add: is_top_level_post_def)
    then show ?thesis
      using False Cons.IH [OF Cons.prems(1) rest, of c] by auto
  next
    case True
    have t: "Type op = ''comment_operation''" "ParentAuthor (Value op) = []"
      using True by (simp_all add: is_top_level_post_def)
    let ?x = "stmt_Exec env (stmt bp) (post_values lib n ts (Value op))"
    have nf: "\<not> db_fails env (db_calls w)" using assms(1) by (simp add: no_db_faults_def)
    have x: "fst (?x w) = None" "posts (snd (?x w)) = Some t"
      using stmt_Exec_conflict [OF nf Cons.prems(1), of op lib n ts] Cons.prems(2) True assms(3)
      by simp_all
    have r: "retryWithBackoff (MaxRetries (config bp)) (RetryDelay (config bp)) ?x w =
        (None, snd (?x w))"
      using assms(2) x(1) by (intro retryWithBackoff_first_try) (auto simp: prod_eq_iff)
    obtain w' where w':
      "process_ops env lib bp n ts ops (c + 1) (snd (?x w)) =
         ((c + 1 + int (length (filter is_top_level_post ops)), None), w')"
      "posts w' = Some t"
      using Cons.IH [OF x(2) rest, of "c + 1"] by blast
    show ?thesis using True t r w' by simp
  qed
qed

lemma processBlock_stored:
  assumes "no_db_faults env" "1 \<le> MaxRetries (config bp)" "stmt bp = insert_columns"
    and "posts w = Some t" "well_formed_id block"
    and "\<And>op. op \<in> set (top_level_posts block) \<Longrightarrow> already_stored t op"
  shows "\<exists>w'. processBlock env lib bp block w =
       (Inr (int (length (top_level_posts block)), None), w') \<and> posts w' = Some t"
proof -
  obtain n where n: "8 \<le> length (BlockNum block)"
    "ParseInt (take 8 (BlockNum block)) 16 32 = (n, None)"
    using assms(5)
    by (cases "ParseInt (take 8 (BlockNum block)) 16 32") (auto simp: well_formed_id_def)
  have "\<And>op. op \<in> set (block_ops block) \<Longrightarrow> is_top_level_post op \<Longrightarrow> already_stored t op"
    using assms(6) by (simp add: top_level_posts_def)
  then obtain w' where
    "process_ops env lib bp n (Timestamp block) (block_ops block) 0 w =
       ((0 + int (length (filter is_top_level_post (block_ops block))), None), w')"
    "posts w' = Some t"
    using process_ops_stored [OF assms(1,2,3,4), of "block_ops block" lib n "Timestamp block" 0]
    by blast
  then show ?thesis
    using processBlock_parsed_id [OF n, of env lib bp w]
    by (simp add: process_txs_concat block_ops_def top_level_posts_def)
qed

lemma well_formed_id_not_sentinel: "well_formed_id block \<Longrightarrow> BlockNum block \<noteq> ''0''"
  by (auto simp: well_formed_id_def)

lemma process_blocks_stored:
  assumes "no_db_faults env" "1 \<le> MaxRetries (config bp)" "stmt bp = insert_columns"
  shows "posts s = Some t \<Longrightarrow>
     (\<And>b. b \<in> set bs \<Longrightarrow>
        well_formed_id b \<and> (\<forall>op\<in>set (top_level_posts b). already_stored t op)) \<Longrightarrow>
     \<exists>s'. process_blocks env lib bp bs bi s =
             (Inr (bi + int (length (concat (map top_level_posts bs)))), s') \<and>
          posts s' = Some t \<and>
          totalProcessed s' = totalProcessed s + int (length bs) \<and>
          lastProcessed s' = (if bs = [] then lastProcessed s else block_height (last bs))"
proof (induction bs arbitrary: bi s)
  case Nil
  then show ?case by simp
next
  case (Cons b bs)
  have wf: "well_formed_id b" and st: "\<And>op. op \<in> set (top_level_posts b) \<Longrightarrow> already_stored t op"
    using Cons.prems(2) [of b] by simp_all
  have rest: "\<And>b. b \<in> set bs \<Longrightarrow>
        well_formed_id b \<and> (\<forall>op\<in>set (top_level_posts b). already_stored t op)"
    using Cons.prems(2) by auto
  obtain s1 where s1:
    "processBlock env lib bp b s = (Inr (int (length (top_level_posts b)), None), s1)"
    "posts s1 = Some t"
    using processBlock_stored [OF assms Cons.prems(1) wf st] by blast
  have d: "db_only s s1" using db_only_processBlock [of s env lib bp b] s1(1) by simp
  let ?s2 = "s1\<lparr>lastProcessed := block_height b, totalProcessed := totalProcessed s1 + 1\<rparr>"
  have l: "8 \<le> length (BlockNum b)" using wf by (simp add: well_formed_id_def)
  have step: "process_blocks env lib bp (b # bs) bi s =
      process_blocks env lib bp bs (bi + int (length (top_level_posts b))) ?s2"
    using well_formed_id_not_sentinel [OF wf] s1(1) l
    by (simp add: slice_to_def block_height_def)
  have p2: "posts ?s2 = Some t" using s1(2) by simp
  obtain s' where s':
    "process_blocks env lib bp bs (bi + int (length (top_level_posts b))) ?s2 =
       (Inr (bi + int (length (top_level_posts b)) +
             int (length (concat (map top_level_posts bs)))), s')"
    "posts s' = Some t" "totalProcessed s' = totalProcessed ?s2 + int (length bs)"
    "lastProcessed s' = (if bs = [] then lastProcessed ?s2 else block_height (last bs))"
    using Cons.IH [OF p2 rest, of "bi + int (length (top_level_posts b))"] by blast
  show ?case
    using step s' db_only_main_fields(7) [OF d] by (auto simp: algebra_simps)
qed

text \<open>
  C6, amended. Running blocks again whose posts are all stored already (no database call
  failing, the identifiers well formed): the insert of a post whose key exists is no
  error and adds no row, so the table is as before; each block advances the
  processed-block counter by one and \<open>lastProcessed\<close> to its height. But the count that
  \<open>processBlock\<close> returns, which \<open>main\<close> adds to its total of posts, is the number of
  top-level posts processed, whether or not a row was added: the batch contributes the
  number of its top-level posts, not zero.
\<close>

theorem rerun_stored_blocks:
  "no_db_faults env \<and> 1 \<le> MaxRetries (config bp) \<and> stmt bp = insert_columns \<and>
   posts s = Some t \<and>
   (\<forall>b\<in>set bs. well_formed_id b \<and> (\<forall>op\<in>set (top_level_posts b). already_stored t op)) \<longrightarrow>
     (\<exists>s'. process_blocks env lib bp bs batchInserts s =
             (Inr (batchInserts + int (length (concat (map top_level_posts bs)))), s') \<and>
          posts s' = Some t \<and>
          totalProcessed s' = totalProcessed s + int (length bs) \<and>
          lastProcessed s' = (if bs = [] then lastProcessed s else block_height (last bs)))"
proof
  assume a: "no_db_faults env \<and> 1 \<le> MaxRetries (config bp) \<and> stmt bp = insert_columns \<and>
   posts s = Some t \<and>
   (\<forall>b\<in>set bs. well_formed_id b \<and> (\<forall>op\<in>set (top_level_posts b). already_stored t op))"
  show "\<exists>s'. process_blocks env lib bp bs batchInserts s =
             (Inr (batchInserts + int (length (concat (map top_level_posts bs)))), s') \<and>
          posts s' = Some t \<and>
          totalProcessed s' = totalProcessed s + int (length bs) \<and>
          lastProcessed s' = (if bs = [] then lastProcessed s else block_height (last bs))"
    by (rule process_blocks_stored [of env bp s t bs lib batchInserts]) (use a in auto)
qed

lemma example_rerun_facts:
  "no_db_faults quiet_env" "1 \<le> MaxRetries (config example_bp)" "stmt example_bp = insert_columns"
  "well_formed_id example_block"
  "\<forall>op\<in>set (top_level_posts example_block).
     already_stored \<lparr>columns = ''_id'' # insert_columns,
           rows = [(''_id'', SInt 1) #
                   zip insert_columns
                     (post_values example_lib 103 ''2020-03-01T12:00:00'' (Value example_post))],
           last_id = 1\<rparr> op"
  "totalProcessed stored_state = 0" "block_height example_block = 103"
proof -
  show "no_db_faults quiet_env" by (simp add: no_db_faults_def quiet_env_def)
  show "1 \<le> MaxRetries (config example_bp)" "stmt example_bp = insert_columns"
    by (simp_all add: example_bp_def DefaultConfig_def)
  show "well_formed_id example_block"
    using example_block_id by (simp add: well_formed_id_def)
  show "\<forall>op\<in>set (top_level_posts example_block).
     already_stored \<lparr>columns = ''_id'' # insert_columns,
           rows = [(''_id'', SInt 1) #
                   zip insert_columns
                     (post_values example_lib 103 ''2020-03-01T12:00:00'' (Value example_post))],
           last_id = 1\<rparr> op"
    by (simp add: example_block_posts already_stored_def insert_columns_def post_values_def
          example_post_def constructAuthorPerm_def)
  show "totalProcessed stored_state = 0"
    by (simp add: stored_state_def ready_state_def start_state_def)
  show "block_height example_block = 103"
    using example_block_id by (simp add: block_height_def)
qed

text \<open>
  The example block run again on the database that holds its post: the table is as
  before, one more block is counted as processed, the last processed height is 103.
\<close>

theorem rerun_stored_blocks_witness:
  "posts (snd (process_blocks quiet_env example_lib example_bp [example_block] 0 stored_state)) =
     posts stored_state \<and>
   totalProcessed
     (snd (process_blocks quiet_env example_lib example_bp [example_block] 0 stored_state)) = 1 \<and>
   lastProcessed
     (snd (process_blocks quiet_env example_lib example_bp [example_block] 0 stored_state)) = 103"
proof -
  note f = example_rerun_facts
  from rerun_stored_blocks [of quiet_env example_bp stored_state _ "[example_block]" example_lib 0]
    f(1-5) stored_block_nums(1)
  obtain s' where
    "process_blocks quiet_env example_lib example_bp [example_block] 0 stored_state =
       (Inr (0 + int (length (concat (map top_level_posts [example_block])))), s')"
    "posts s' = posts stored_state"
    "totalProcessed s' = totalProcessed stored_state + int (length [example_block])"
    "lastProcessed s' = block_height (last [example_block])"
    by auto
  then show ?thesis using f(6,7) by simp
qed

text \<open>
  C6 as stated fails: for the example block run again on the database that holds its
  post, the count added to the posts inserted is 1, not zero, though no row is added.
\<close>

theorem rerun_counts_stored_post:
  "fst (process_blocks quiet_env example_lib example_bp [example_block] 0 stored_state) = Inr 1 \<and>
   posts (snd (process_blocks quiet_env example_lib example_bp [example_block] 0 stored_state)) =
     posts stored_state"
proof -
  note f = example_rerun_facts
  let ?t = "\<lparr>columns = ''_id'' # insert_columns,
           rows = [(''_id'', SInt 1) #
                   zip insert_columns
                     (post_values example_lib 103 ''2020-03-01T12:00:00'' (Value example_post))],
           last_id = 1\<rparr>"
  have "\<exists>s'. process_blocks quiet_env example_lib example_bp [example_block] 0 stored_state =
             (Inr (0 + int (length (concat (map top_level_posts [example_block])))), s') \<and>
          posts s' = Some ?t \<and>
          totalProcessed s' = totalProcessed stored_state + int (length [example_block]) \<and>
          lastProcessed s' =
            (if [example_block] = [] then lastProcessed stored_state
             else block_height (last [example_block]))"
    by (rule process_blocks_stored [OF f(1,2,3) stored_block_nums(1)]) (use f(4,5) in simp)
  then obtain s' where
    "process_blocks quiet_env example_lib example_bp [example_block] 0 stored_state =
       (Inr (0 + int (length (concat (map top_level_posts [example_block])))), s')"
    "posts s' = Some ?t"
    by blast
  then show ?thesis using stored_block_nums(1) by (simp add: example_block_posts)
qed

section \<open>A failed block is not fetched again\<close>

lemma retry_loop_failed:
  assumes "\<And>w e w'. operation w = (Some e, w') \<Longrightarrow> I w'"
    and "\<And>w d. I w \<Longrightarrow> I (time_Sleep d w)"
    and "I w"
    and "retry_loop n d operation i e w = (Some x, w')"
  shows "I w'"
  using assms
proof (induction n d operation i e w rule: retry_loop.induct)
  case (1 maxRetries retryDelay operation i lastErr w)
  note op = "1.prems"(1) and sl = "1.prems"(2) and w = "1.prems"(3) and res = "1.prems"(4)
  show ?case
  proof (cases "i < maxRetries")
    case False
    then show ?thesis using res w by (subst (asm) retry_loop.simps) simp
  next
    case True
    obtain r w1 where o: "operation w = (r, w1)" by (cases "operation w")
    show ?thesis
    proof (cases r)
      case None
      then show ?thesis using True o res by (subst (asm) retry_loop.simps) simp
    next
      case (Some y)
      have w1: "I w1" using op o Some by blast
      have "retry_loop maxRetries retryDelay operation (i + 1) (Some y)
                 (time_Sleep (retryDelay * push_bit (nat i) 1) w1) = (Some x, w')"
        using True o Some res by (subst (asm) retry_loop.simps) simp
      then show ?thesis
        by (intro "1.IH" [OF True o [symmetric] Some op sl]) (auto intro: sl w1)
    qed
  qed
qed

lemma failed_fetch_no_blocks:
  assumes "retryWithBackoff n d (fetch_op env st c) (s\<lparr>blocks := []\<rparr>) = (Some x, s1)"
  shows "blocks s1 = []"
proof (rule retry_loop_failed [where I = "\<lambda>w. blocks w = []"])
  show "retry_loop n d (fetch_op env st c) 0 None (s\<lparr>blocks := []\<rparr>) = (Some x, s1)"
    using assms by (simp add: retryWithBackoff_def)
qed (auto simp: fetch_op_def getBlockRange_def split: sum.splits)

lemma fetched_in_order:
  assumes "chain_in_order env"
    and "retryWithBackoff n d (fetch_op env st c) s = (None, s1)"
  shows "in_order st (blocks s1)"
proof -
  have "\<exists>w0. True \<and> fetch_op env st c w0 = (None, s1)"
    by (rule retryWithBackoff_success [where I = "\<lambda>w. True", OF _ _ _ assms(2)]) simp_all
  then obtain w0 where "fetch_op env st c w0 = (None, s1)" by blast
  then have "block_range env (net_calls w0) st c = Inr (blocks s1)"
    by (rule fetch_op_blocks)
  then show ?thesis using assms(1) by (auto simp: chain_in_order_def)
qed

lemma process_blocks_lp_ge:
  assumes "\<And>b. b \<in> set ys \<Longrightarrow> well_formed_id b \<Longrightarrow> L \<le> block_height b"
    and "L \<le> lastProcessed u"
  shows "L \<le> lastProcessed (snd (process_blocks env lib bp ys n u))"
  using assms
proof (induction ys arbitrary: n u)
  case Nil
  then show ?case by simp
next
  case (Cons b ys)
  have rest: "\<And>b. b \<in> set ys \<Longrightarrow> well_formed_id b \<Longrightarrow> L \<le> block_height b"
    using Cons.prems(1) by simp
  show ?case
  proof (cases rule: process_blocks_Cons_cases [of b env lib bp ys n u])
    case skip
    then show ?thesis using Cons.IH [OF rest Cons.prems(2), of n] by simp
  next
    case (panic p s1)
    then show ?thesis using db_only_main_fields(4) [OF panic(2)] Cons.prems(2) by simp
  next
    case (failed c e s1)
    have "L \<le> lastProcessed s1"
      using db_only_main_fields(4) [OF failed(2)] Cons.prems(2) by simp
    then show ?thesis using failed(4) Cons.IH [OF rest, of s1 n] by simp
  next
    case (ok c s1)
    have "L \<le> block_height b" using Cons.prems(1) [of b] ok(3) by simp
    then have "L \<le> lastProcessed (s1\<lparr>lastProcessed := block_height b,
        totalProcessed := totalProcessed s1 + 1\<rparr>)"
      by simp
    then show ?thesis using ok(5) Cons.IH [OF rest, of _ "n + c"] by simp
  qed
qed

lemma in_order_heights:
  assumes "in_order st bs" "b \<in> set (drop m bs)" "well_formed_id b"
  shows "st + int m \<le> block_height b"
proof -
  obtain k where k: "k < length (drop m bs)" "drop m bs ! k = b"
    using assms(2) by (auto simp: in_set_conv_nth)
  then have "m + k < length bs" "bs ! (m + k) = b" by auto
  then have "block_height b = st + int (m + k)"
    using assms(1,3) by (auto simp: in_order_def)
  then show ?thesis by simp
qed

text \<open>Under the expected answers of the API, a pass never lowers \<open>lastProcessed\<close>.\<close>

lemma loop_body_lp_mono:
  assumes "chain_in_order env"
  shows "lastProcessed s \<le> lastProcessed (snd (loop_body env lib bp cfg s))"
proof -
  let ?st = "lastProcessed s + 1"
  let ?c = "batch_count cfg (currentBlock s) ?st"
  let ?r = "retryWithBackoff (MaxRetries cfg) (RetryDelay cfg) (fetch_op env ?st ?c)
     (s\<lparr>blocks := []\<rparr>)"
  obtain e s1 where r: "?r = (e, s1)" by (cases ?r)
  have f: "lastProcessed s1 = lastProcessed s"
    using retry_fetch_fields [of s1 "MaxRetries cfg" "RetryDelay cfg" env ?st ?c
        "s\<lparr>blocks := []\<rparr>"] r by simp
  show ?thesis
  proof (cases e)
    case (Some x)
    then show ?thesis using r f by (simp add: loop_body_def Let_def)
  next
    case None
    have io: "in_order ?st (blocks s1)"
      using fetched_in_order [OF assms] r None by blast
    have "\<And>b. b \<in> set (blocks s1) \<Longrightarrow> well_formed_id b \<Longrightarrow> lastProcessed s \<le> block_height b"
      using in_order_heights [OF io, of _ 0] by fastforce
    then have "lastProcessed s \<le> lastProcessed (snd (process_blocks env lib bp (blocks s1) 0 s1))"
      using f by (intro process_blocks_lp_ge) auto
    then show ?thesis
      using r None
      by (cases "process_blocks env lib bp (blocks s1) 0 s1")
         (auto simp: loop_body_def Let_def split: sum.splits)
  qed
qed

text \<open>
  So once \<open>lastProcessed\<close> has passed a height, every later request of the run starts
  above it.
\<close>

lemma main_loop_requests_above:
  assumes "chain_in_order env"
  shows "L \<le> lastProcessed u \<Longrightarrow>
     \<exists>rs. requests (snd (main_loop fuel env lib bp cfg u)) = requests u @ rs \<and>
          (\<forall>rq\<in>set rs. L < fst rq)"
proof (induction fuel arbitrary: u)
  case 0
  then show ?case by simp
next
  case (Suc fuel)
  show ?case
  proof (cases "variance u > 0")
    case False
    then show ?thesis by simp
  next
    case True
    obtain q u1 where b: "loop_body env lib bp cfg u = (q, u1)"
      by (cases "loop_body env lib bp cfg u")
    obtain k where k: "requests u1 = requests u @
        replicate k (lastProcessed u + 1, batch_count cfg (currentBlock u) (lastProcessed u + 1))"
      using loop_body_requests [of env lib bp cfg u] b by auto
    have lp: "L \<le> lastProcessed u1"
      using loop_body_lp_mono [OF assms, of u lib bp cfg] b Suc.prems by simp
    show ?thesis
    proof (cases q)
      case (Some p)
      then show ?thesis using True b k Suc.prems by auto
    next
      case None
      obtain rs where rs: "requests (snd (main_loop fuel env lib bp cfg u1)) = requests u1 @ rs"
        "\<forall>rq\<in>set rs. L < fst rq"
        using Suc.IH [OF lp] by blast
      have "requests (snd (main_loop (Suc fuel) env lib bp cfg u)) =
          requests u @ (replicate k (lastProcessed u + 1,
             batch_count cfg (currentBlock u) (lastProcessed u + 1)) @ rs)"
        using True b None rs(1) k by simp
      moreover have "\<forall>rq\<in>set (replicate k (lastProcessed u + 1,
             batch_count cfg (currentBlock u) (lastProcessed u + 1)) @ rs). L < fst rq"
        using rs(2) Suc.prems by auto
      ultimately show ?thesis by blast
    qed
  qed
qed

lemma process_blocks_prefix:
  assumes "fst (process_blocks env lib bp bs n s) = Inr m"
  shows "\<exists>m'. process_blocks env lib bp (take k bs) n s =
            (Inr m', snd (process_blocks env lib bp (take k bs) n s)) \<and>
          process_blocks env lib bp bs n s =
            process_blocks env lib bp (drop k bs) m'
              (snd (process_blocks env lib bp (take k bs) n s))"
proof -
  obtain q x where p: "process_blocks env lib bp (take k bs) n s = (q, x)"
    by (cases "process_blocks env lib bp (take k bs) n s")
  have whole: "process_blocks env lib bp bs n s =
      (case (q, x) of (Inl p, s1) \<Rightarrow> (Inl p, s1)
       | (Inr m, s1) \<Rightarrow> process_blocks env lib bp (drop k bs) m s1)"
    using process_blocks_append [of env lib bp "take k bs" "drop k bs" n s] p by simp
  show ?thesis
  proof (cases q)
    case (Inl p')
    then show ?thesis using whole assms by simp
  next
    case (Inr m')
    then show ?thesis using whole p by simp
  qed
qed

lemma process_blocks_single_failed:
  assumes "BlockNum b \<noteq> ''0''" "fst (processBlock env lib bp b x) = Inr (c, Some e)"
  shows "lastProcessed (snd (process_blocks env lib bp [b] m x)) = lastProcessed x"
proof (cases rule: process_blocks_Cons_cases [of b env lib bp "[]" m x])
  case skip
  then show ?thesis using assms(1) by simp
next
  case (panic p s1)
  then show ?thesis using assms(2) by simp
next
  case (failed c' e' s1)
  then show ?thesis using db_only_main_fields(4) [OF failed(2)] by simp
next
  case (ok c' s1)
  then show ?thesis using assms(2) by simp
qed

lemma process_blocks_single_ok:
  assumes "BlockNum b \<noteq> ''0''" "fst (processBlock env lib bp b x) = Inr (c, None)"
  shows "well_formed_id b \<and>
     lastProcessed (snd (process_blocks env lib bp [b] m x)) = block_height b"
proof (cases rule: process_blocks_Cons_cases [of b env lib bp "[]" m x])
  case skip
  then show ?thesis using assms(1) by simp
next
  case (panic p s1)
  then show ?thesis using assms(2) by simp
next
  case (failed c' e' s1)
  then show ?thesis using assms(2) by simp
next
  case (ok c' s1)
  then show ?thesis by simp
qed

lemma before_block_Suc:
  assumes "fst (process_blocks env lib bp (blocks (after_fetch env cfg s)) 0
      (after_fetch env cfg s)) = Inr m"
    and "k < length (blocks (after_fetch env cfg s))"
  shows "\<exists>m'. before_block env lib bp cfg s (Suc k) =
     snd (process_blocks env lib bp [blocks (after_fetch env cfg s) ! k] m'
            (before_block env lib bp cfg s k))"
proof -
  let ?s1 = "after_fetch env cfg s"
  let ?bs = "blocks ?s1"
  obtain m' where m': "process_blocks env lib bp (take k ?bs) 0 ?s1 =
      (Inr m', before_block env lib bp cfg s k)"
    using process_blocks_prefix [OF assms(1), of k] by (auto simp: before_block_def)
  have t: "take (Suc k) ?bs = take k ?bs @ [?bs ! k]"
    using assms(2) by (rule take_Suc_conv_app_nth)
  have "process_blocks env lib bp (take (Suc k) ?bs) 0 ?s1 =
      process_blocks env lib bp [?bs ! k] m' (before_block env lib bp cfg s k)"
    unfolding t process_blocks_append m' by (simp only: prod.case sum.case)
  moreover have "before_block env lib bp cfg s (Suc k) =
      snd (process_blocks env lib bp (take (Suc k) ?bs) 0 ?s1)"
    by (simp only: before_block_def)
  ultimately have "before_block env lib bp cfg s (Suc k) =
      snd (process_blocks env lib bp [?bs ! k] m' (before_block env lib bp cfg s k))"
    by (simp only:)
  then show ?thesis by blast
qed

text \<open>
  C10, amended. One pass of the loop from the state \<open>s\<close>, in a run in which the chain's
  API answers every range request in order (the block at position \<open>i\<close> of the answer to
  a request from \<open>st\<close> is block \<open>st + i\<close>), and in which the block at position \<open>i\<close>
  of the fetched batch fails (\<open>processBlock\<close> returns an error) and the block at a later
  position \<open>j\<close> is processed successfully. The failed
  block leaves \<open>lastProcessed\<close> as it was; the later block sets it to its own height,
  which is \<open>lastProcessed s + 1 + j\<close>; at the end of the pass \<open>lastProcessed\<close> is at
  least that; and every request for blocks made in the rest of the run, however long it
  lasts, starts above the height \<open>lastProcessed s + 1 + i\<close> of the failed block, which is
  therefore never fetched again.
\<close>

theorem failed_block_not_refetched:
  "chain_in_order env \<and> loop_body env lib bp cfg s = (None, s') \<and> i < j \<and>
   block_fails env lib bp cfg s i \<and> block_succeeds env lib bp cfg s j \<longrightarrow>
     lastProcessed (before_block env lib bp cfg s (Suc i)) =
       lastProcessed (before_block env lib bp cfg s i) \<and>
     lastProcessed (before_block env lib bp cfg s (Suc j)) =
       block_height (blocks (after_fetch env cfg s) ! j) \<and>
     block_height (blocks (after_fetch env cfg s) ! j) = lastProcessed s + 1 + int j \<and>
     lastProcessed s + 1 + int j \<le> lastProcessed s' \<and>
     (\<forall>rq\<in>set (drop (length (requests s'))
                 (requests (snd (main_loop fuel env lib bp cfg s')))).
        lastProcessed s + 1 + int i < fst rq)"
proof
  assume a: "chain_in_order env \<and> loop_body env lib bp cfg s = (None, s') \<and> i < j \<and>
   block_fails env lib bp cfg s i \<and> block_succeeds env lib bp cfg s j"
  let ?st = "lastProcessed s + 1"
  let ?c = "batch_count cfg (currentBlock s) ?st"
  let ?r = "retryWithBackoff (MaxRetries cfg) (RetryDelay cfg) (fetch_op env ?st ?c)
     (s\<lparr>blocks := []\<rparr>)"
  let ?s1 = "after_fetch env cfg s"
  let ?bs = "blocks ?s1"
  have ij: "i < length ?bs" "j < length ?bs" "i < j"
    using a by (simp_all add: block_fails_def block_succeeds_def)
  obtain e where r: "?r = (e, ?s1)" by (cases ?r) (simp add: after_fetch_def)
  have e: "e = None"
  proof (cases e)
    case (Some x)
    then have "?bs = []" using failed_fetch_no_blocks r by blast
    then show ?thesis using ij(1) by simp
  qed simp
  have io: "in_order ?st ?bs"
    using fetched_in_order [of env] a r e by blast
  have f: "lastProcessed ?s1 = lastProcessed s"
    using retry_fetch_fields [of ?s1 "MaxRetries cfg" "RetryDelay cfg" env ?st ?c
        "s\<lparr>blocks := []\<rparr>"] by (simp add: after_fetch_def)
  obtain q s2 where p: "process_blocks env lib bp ?bs 0 ?s1 = (q, s2)"
    by (cases "process_blocks env lib bp ?bs 0 ?s1")
  obtain n where q: "q = Inr n" and s': "lastProcessed s' = lastProcessed s2"
    using a r e p by (cases q) (auto simp: loop_body_def Let_def)
  have whole: "fst (process_blocks env lib bp ?bs 0 ?s1) = Inr n" using p q by simp
  \<comment> \<open>the failed block\<close>
  obtain ci ei where oi: "block_outcome env lib bp cfg s i = Inr (ci, Some ei)"
    and ni: "BlockNum (?bs ! i) \<noteq> ''0''"
    using a by (auto simp: block_fails_def split: sum.splits prod.splits option.splits)
  obtain mi where mi: "before_block env lib bp cfg s (Suc i) =
      snd (process_blocks env lib bp [?bs ! i] mi (before_block env lib bp cfg s i))"
    using before_block_Suc [OF whole ij(1)] by blast
  have c1: "lastProcessed (before_block env lib bp cfg s (Suc i)) =
       lastProcessed (before_block env lib bp cfg s i)"
    unfolding mi
    by (rule process_blocks_single_failed [OF ni]) (use oi in \<open>simp add: block_outcome_def\<close>)
  \<comment> \<open>the later block\<close>
  obtain cj where oj: "block_outcome env lib bp cfg s j = Inr (cj, None)"
    and nj: "BlockNum (?bs ! j) \<noteq> ''0''"
    using a by (auto simp: block_succeeds_def split: sum.splits prod.splits option.splits)
  obtain mj where mj: "before_block env lib bp cfg s (Suc j) =
      snd (process_blocks env lib bp [?bs ! j] mj (before_block env lib bp cfg s j))"
    using before_block_Suc [OF whole ij(2)] by blast
  have okj: "well_formed_id (?bs ! j) \<and>
     lastProcessed (snd (process_blocks env lib bp [?bs ! j] mj
        (before_block env lib bp cfg s j))) = block_height (?bs ! j)"
    by (rule process_blocks_single_ok [OF nj]) (use oj in \<open>simp add: block_outcome_def\<close>)
  have c2: "lastProcessed (before_block env lib bp cfg s (Suc j)) = block_height (?bs ! j)"
    using okj mj by simp
  have c3: "block_height (?bs ! j) = ?st + int j"
    using io okj ij(2) by (simp add: in_order_def)
  \<comment> \<open>the rest of the batch\<close>
  obtain m' where rest: "process_blocks env lib bp ?bs 0 ?s1 =
      process_blocks env lib bp (drop (Suc j) ?bs) m' (before_block env lib bp cfg s (Suc j))"
    using process_blocks_prefix [OF whole, of "Suc j"] by (auto simp: before_block_def)
  have "?st + int j \<le> lastProcessed (snd (process_blocks env lib bp (drop (Suc j) ?bs) m'
      (before_block env lib bp cfg s (Suc j))))"
  proof (rule process_blocks_lp_ge)
    show "?st + int j \<le> lastProcessed (before_block env lib bp cfg s (Suc j))"
      using c2 c3 by simp
    show "?st + int j \<le> block_height b"
      if "b \<in> set (drop (Suc j) ?bs)" "well_formed_id b" for b
      using in_order_heights [OF io that] by simp
  qed
  moreover have "snd (process_blocks env lib bp (drop (Suc j) ?bs) m'
      (before_block env lib bp cfg s (Suc j))) = s2"
    using p unfolding rest by simp
  ultimately have c4: "?st + int j \<le> lastProcessed s'"
    using s' by simp
  \<comment> \<open>the rest of the run\<close>
  obtain rs where rs: "requests (snd (main_loop fuel env lib bp cfg s')) = requests s' @ rs"
    "\<forall>rq\<in>set rs. ?st + int j < fst rq"
    using main_loop_requests_above [of env "?st + int j" s' fuel lib bp cfg] a c4 by blast
  have c5: "\<forall>rq\<in>set (drop (length (requests s'))
                 (requests (snd (main_loop fuel env lib bp cfg s')))). ?st + int i < fst rq"
    using rs ij(3) by fastforce
  show "lastProcessed (before_block env lib bp cfg s (Suc i)) =
       lastProcessed (before_block env lib bp cfg s i) \<and>
     lastProcessed (before_block env lib bp cfg s (Suc j)) =
       block_height (blocks (after_fetch env cfg s) ! j) \<and>
     block_height (blocks (after_fetch env cfg s) ! j) = lastProcessed s + 1 + int j \<and>
     lastProcessed s + 1 + int j \<le> lastProcessed s' \<and>
     (\<forall>rq\<in>set (drop (length (requests s'))
                 (requests (snd (main_loop fuel env lib bp cfg s')))).
        lastProcessed s + 1 + int i < fst rq)"
    using c1 c2 c3 c4 c5 by blast
qed

lemma loop_body_first_try:
  assumes "1 \<le> MaxRetries cfg"
    and "block_range env (net_calls s) (lastProcessed s + 1)
           (batch_count cfg (currentBlock s) (lastProcessed s + 1)) = Inr bs"
  shows "after_fetch env cfg s =
       s\<lparr>blocks := bs, net_calls := net_calls s + 1,
          requests := requests s @
            [(lastProcessed s + 1, batch_count cfg (currentBlock s) (lastProcessed s + 1))]\<rparr>"
    and "loop_body env lib bp cfg s =
       (case process_blocks env lib bp bs 0 (after_fetch env cfg s) of
          (Inl p, s2) \<Rightarrow> (Some p, s2)
        | (Inr n, s2) \<Rightarrow>
            (None,
             s2\<lparr>totalInserts := totalInserts s2 + n,
                progress := progress s2 @
                  [percentage (lastProcessed s2) (GenesisBlock cfg) (currentBlock s2)],
                variance := currentBlock s2 - lastProcessed s2\<rparr>))"
proof -
  let ?st = "lastProcessed s + 1"
  let ?c = "batch_count cfg (currentBlock s) ?st"
  let ?x = "s\<lparr>blocks := bs, net_calls := net_calls s + 1,
          requests := requests s @ [(?st, ?c)]\<rparr>"
  have "fetch_op env ?st ?c (s\<lparr>blocks := []\<rparr>) = (None, ?x)"
    using assms(2) by (simp add: fetch_op_def getBlockRange_def)
  then have r: "retryWithBackoff (MaxRetries cfg) (RetryDelay cfg) (fetch_op env ?st ?c)
      (s\<lparr>blocks := []\<rparr>) = (None, ?x)"
    using assms(1) by (intro retryWithBackoff_first_try)
  show a: "after_fetch env cfg s = ?x" by (simp add: after_fetch_def r)
  show "loop_body env lib bp cfg s =
       (case process_blocks env lib bp bs 0 (after_fetch env cfg s) of
          (Inl p, s2) \<Rightarrow> (Some p, s2)
        | (Inr n, s2) \<Rightarrow>
            (None,
             s2\<lparr>totalInserts := totalInserts s2 + n,
                progress := progress s2 @
                  [percentage (lastProcessed s2) (GenesisBlock cfg) (currentBlock s2)],
                variance := currentBlock s2 - lastProcessed s2\<rparr>))"
    unfolding a by (simp add: loop_body_def Let_def r)
qed

lemma main_loop_one_pass:
  assumes "variance u > 0"
  shows "requests (snd (main_loop (Suc 0) env lib bp cfg u)) =
     requests (snd (loop_body env lib bp cfg u))"
  using assms
  by (cases "loop_body env lib bp cfg u") (auto split: option.splits)

lemma bad_block_fails:
  "processBlock env lib bp bad_block x =
     (Inr (0, Some (Wrapped ''error converting block number from hex'' ErrSyntax)), x)"
  by (rule processBlock_unparsable_id)
     (simp_all add: bad_block_def ParseInt_def ParseUint_def digit_val_def)

lemma bad_block_skipped:
  "process_blocks env lib bp (bad_block # bs) n x = process_blocks env lib bp bs n x"
  by (simp add: bad_block_fails bad_block_def [THEN arg_cong [where f = BlockNum]])

lemma block_100_ok:
  "processBlock env lib bp block_100 x = (Inr (0, None), x)"
  by (simp add: processBlock_def slice_to_def block_100_def ParseInt_def ParseUint_def
        digit_val_def)

lemma block_100_processed:
  "process_blocks env lib bp (block_100 # bs) n x =
     process_blocks env lib bp bs n
       (x\<lparr>lastProcessed := 100, totalProcessed := totalProcessed x + 1\<rparr>)"
  by (simp add: block_100_ok)
     (simp add: slice_to_def block_100_def ParseInt_def ParseUint_def digit_val_def)

lemma resumed_state_fields:
  "net_calls resumed_state = 0" "requests resumed_state = []"
  "lastProcessed resumed_state + 1 = 104" "totalProcessed resumed_state = 0"
  "totalInserts resumed_state = 0" "progress resumed_state = []"
  "currentBlock resumed_state = 105" "GenesisBlock example_cfg = 100"
  by (simp_all add: resumed_state_def stored_state_def ready_state_def start_state_def
        example_cfg_def)

lemma block_facts:
  "well_formed_id block_105" "block_height block_105 = 105"
  "top_level_posts block_105 = [example_post]" "BlockNum block_105 \<noteq> ''0''"
  "BlockNum bad_block \<noteq> ''0''" "BlockNum block_100 \<noteq> ''0''" "well_formed_id block_100"
  "block_height block_100 = 100"
  by (simp_all add: well_formed_id_def block_height_def block_105_def bad_block_def
        block_100_def ParseInt_def ParseUint_def digit_val_def top_level_posts_def
        block_ops_def is_top_level_post_def example_post_def)

lemma growing_chain_in_order: "chain_in_order growing_chain"
proof -
  have "in_order 104 [bad_block, block_105]"
    by (simp add: in_order_def less_Suc_eq numeral_2_eq_2 all_conj_distrib well_formed_id_def
          block_height_def bad_block_def block_105_def ParseInt_def ParseUint_def digit_val_def)
  moreover have "in_order st []" for st by (simp add: in_order_def)
  ultimately show ?thesis
    by (auto simp: chain_in_order_def growing_chain_def example_chain_def split: if_splits)
qed

lemma resumed_far_fetch:
  "after_fetch growing_chain example_cfg resumed_far =
     resumed_far\<lparr>blocks := [bad_block, block_105], net_calls := net_calls resumed_far + 1,
        requests := requests resumed_far @
          [(lastProcessed resumed_far + 1,
            batch_count example_cfg (currentBlock resumed_far) (lastProcessed resumed_far + 1))]\<rparr>"
  "loop_body growing_chain example_lib example_bp example_cfg resumed_far =
     (case process_blocks growing_chain example_lib example_bp [bad_block, block_105] 0
             (after_fetch growing_chain example_cfg resumed_far) of
        (Inl p, s2) \<Rightarrow> (Some p, s2)
      | (Inr n, s2) \<Rightarrow>
          (None,
           s2\<lparr>totalInserts := totalInserts s2 + n,
              progress := progress s2 @
                [percentage (lastProcessed s2) (GenesisBlock example_cfg) (currentBlock s2)],
              variance := currentBlock s2 - lastProcessed s2\<rparr>))"
proof -
  have m: "1 \<le> MaxRetries example_cfg" by (simp add: example_cfg_def DefaultConfig_def)
  have b: "block_range growing_chain (net_calls resumed_far) (lastProcessed resumed_far + 1)
      (batch_count example_cfg (currentBlock resumed_far) (lastProcessed resumed_far + 1)) =
      Inr [bad_block, block_105]"
    by (simp add: growing_chain_def example_chain_def resumed_far_def)
  show "after_fetch growing_chain example_cfg resumed_far =
     resumed_far\<lparr>blocks := [bad_block, block_105], net_calls := net_calls resumed_far + 1,
        requests := requests resumed_far @
          [(lastProcessed resumed_far + 1,
            batch_count example_cfg (currentBlock resumed_far) (lastProcessed resumed_far + 1))]\<rparr>"
    by (rule loop_body_first_try(1) [OF m b])
  show "loop_body growing_chain example_lib example_bp example_cfg resumed_far =
     (case process_blocks growing_chain example_lib example_bp [bad_block, block_105] 0
             (after_fetch growing_chain example_cfg resumed_far) of
        (Inl p, s2) \<Rightarrow> (Some p, s2)
      | (Inr n, s2) \<Rightarrow>
          (None,
           s2\<lparr>totalInserts := totalInserts s2 + n,
              progress := progress s2 @
                [percentage (lastProcessed s2) (GenesisBlock example_cfg) (currentBlock s2)],
              variance := currentBlock s2 - lastProcessed s2\<rparr>))"
    by (rule loop_body_first_try(2) [OF m b])
qed

lemma resumed_far_batch:
  "\<exists>s2. process_blocks growing_chain example_lib example_bp [bad_block, block_105] 0
          (after_fetch growing_chain example_cfg resumed_far) = (Inr 1, s2) \<and>
        lastProcessed s2 = 105 \<and> currentBlock s2 = 107"
proof -
  let ?s1 = "after_fetch growing_chain example_cfg resumed_far"
  let ?t = "\<lparr>columns = ''_id'' # insert_columns,
           rows = [(''_id'', SInt 1) #
                   zip insert_columns
                     (post_values example_lib 103 ''2020-03-01T12:00:00'' (Value example_post))],
           last_id = 1\<rparr>"
  have nf: "no_db_faults growing_chain"
    by (simp add: no_db_faults_def growing_chain_def example_chain_def)
  have p: "posts ?s1 = Some ?t"
    unfolding resumed_far_fetch(1) using stored_block_nums(1) by (simp add: resumed_far_def)
  have c: "currentBlock ?s1 = 107"
    unfolding resumed_far_fetch(1) by (simp add: resumed_far_def)
  have "\<exists>s'. process_blocks growing_chain example_lib example_bp [block_105] 0 ?s1 =
             (Inr (0 + int (length (concat (map top_level_posts [block_105])))), s') \<and>
          posts s' = Some ?t \<and>
          totalProcessed s' = totalProcessed ?s1 + int (length [block_105]) \<and>
          lastProcessed s' =
            (if [block_105] = [] then lastProcessed ?s1 else block_height (last [block_105]))"
    by (rule process_blocks_stored [OF nf example_rerun_facts(2,3) p])
       (use example_rerun_facts(5) block_facts(1,3) in \<open>simp add: example_block_posts\<close>)
  then obtain s2 where s2:
    "process_blocks growing_chain example_lib example_bp [block_105] 0 ?s1 =
       (Inr (0 + int (length (concat (map top_level_posts [block_105])))), s2)"
    "lastProcessed s2 =
       (if [block_105] = [] then lastProcessed ?s1 else block_height (last [block_105]))"
    by blast
  have "currentBlock s2 = currentBlock ?s1"
    using process_blocks_fields [of growing_chain example_lib example_bp "[block_105]" 0 ?s1]
    unfolding s2(1) by simp
  then show ?thesis
    using s2 c by (simp only: bad_block_skipped) (simp add: block_facts)
qed

text \<open>
  The run resumed at block 103, with the head at 107, fetches the blocks from 104: the
  first, with an identifier that cannot be read, fails, the second, block 105, is
  processed. The pass ends with \<open>lastProcessed\<close> at 105, and the pass after it asks for
  the blocks from 106: no request starts at 104 or below.
\<close>

theorem failed_block_not_refetched_witness:
  "chain_in_order growing_chain \<and>
   fst (loop_body growing_chain example_lib example_bp example_cfg resumed_far) = None \<and>
   block_fails growing_chain example_lib example_bp example_cfg resumed_far 0 \<and>
   block_succeeds growing_chain example_lib example_bp example_cfg resumed_far 1 \<and>
   lastProcessed
     (snd (loop_body growing_chain example_lib example_bp example_cfg resumed_far)) = 105 \<and>
   fst ` set (drop (length (requests
        (snd (loop_body growing_chain example_lib example_bp example_cfg resumed_far))))
       (requests (snd (main_loop 1 growing_chain example_lib example_bp example_cfg
          (snd (loop_body growing_chain example_lib example_bp example_cfg resumed_far))))))
     = {106} \<and>
   list_all (\<lambda>rq. 104 < fst rq)
     (drop (length (requests
        (snd (loop_body growing_chain example_lib example_bp example_cfg resumed_far))))
       (requests (snd (main_loop 1 growing_chain example_lib example_bp example_cfg
          (snd (loop_body growing_chain example_lib example_bp example_cfg resumed_far))))))"
proof -
  let ?s1 = "after_fetch growing_chain example_cfg resumed_far"
  let ?s' = "snd (loop_body growing_chain example_lib example_bp example_cfg resumed_far)"
  have lp: "lastProcessed resumed_far = 103" by (simp add: resumed_far_def)
  have m: "1 \<le> MaxRetries example_cfg" by (simp add: example_cfg_def DefaultConfig_def)
  have bs: "blocks ?s1 = [bad_block, block_105]" unfolding resumed_far_fetch(1) by simp
  obtain s2 where s2:
    "process_blocks growing_chain example_lib example_bp [bad_block, block_105] 0 ?s1 =
       (Inr 1, s2)" "lastProcessed s2 = 105" "currentBlock s2 = 107"
    using resumed_far_batch by blast
  have s': "fst (loop_body growing_chain example_lib example_bp example_cfg resumed_far) = None"
    "lastProcessed ?s' = 105" "variance ?s' = 2"
    unfolding resumed_far_fetch(2) s2(1) by (simp_all add: s2(2,3))
  have h1: "chain_in_order growing_chain" by (rule growing_chain_in_order)
  have h3: "block_fails growing_chain example_lib example_bp example_cfg resumed_far 0"
    by (simp add: block_fails_def block_outcome_def bs bad_block_fails block_facts(5))
  have b1: "before_block growing_chain example_lib example_bp example_cfg resumed_far (Suc 0) =
      ?s1"
    by (simp add: before_block_def bs bad_block_fails block_facts(5))
  have "process_blocks growing_chain example_lib example_bp [block_105] 0 ?s1 = (Inr 1, s2)"
    using s2(1) by (simp only: bad_block_skipped)
  then have "\<exists>c. fst (processBlock growing_chain example_lib example_bp block_105 ?s1) =
      Inr (c, None)"
    using block_facts(4)
    by (cases "processBlock growing_chain example_lib example_bp block_105 ?s1")
       (auto split: sum.splits prod.splits option.splits)
  then have h4: "block_succeeds growing_chain example_lib example_bp example_cfg resumed_far 1"
    by (auto simp: block_succeeds_def block_outcome_def bs b1 block_facts(4))
  have l: "loop_body growing_chain example_lib example_bp example_cfg resumed_far = (None, ?s')"
    using s'(1) by (simp add: prod_eq_iff)
  from failed_block_not_refetched [of growing_chain example_lib example_bp example_cfg
      resumed_far ?s' 0 1 1] h1 h3 h4 l
  have above: "\<forall>rq\<in>set (drop (length (requests ?s'))
            (requests (snd (main_loop 1 growing_chain example_lib example_bp example_cfg ?s')))).
          lastProcessed resumed_far + 1 + int 0 < fst rq"
    by simp
  obtain k where k:
    "requests (snd (loop_body growing_chain example_lib example_bp example_cfg ?s')) =
       requests ?s' @ replicate k (lastProcessed ?s' + 1,
         batch_count example_cfg (currentBlock ?s') (lastProcessed ?s' + 1))" "1 \<le> k"
    using loop_body_requests [of growing_chain example_lib example_bp example_cfg ?s'] m by auto
  have "requests (snd (main_loop 1 growing_chain example_lib example_bp example_cfg ?s')) =
      requests (snd (loop_body growing_chain example_lib example_bp example_cfg ?s'))"
    using main_loop_one_pass [of ?s' growing_chain example_lib example_bp example_cfg] s'(3)
    by simp
  then have later: "fst ` set (drop (length (requests ?s'))
      (requests (snd (main_loop 1 growing_chain example_lib example_bp example_cfg ?s')))) =
      {106}"
    using k s'(2) by simp
  show ?thesis
    using h1 s'(1,2) h3 h4 later above lp by (simp add: list_all_iff)
qed

lemma example_counts:
  "batch_count example_cfg 105 104 = 2" "batch_count example_cfg 105 101 = 5"
  by (simp_all add: batch_count_def int64_def Let_def example_cfg_def DefaultConfig_def)

lemma resumed_state_fetch:
  "after_fetch unordered_chain example_cfg resumed_state =
     resumed_state\<lparr>blocks := [bad_block, block_100], net_calls := 1, requests := [(104, 2)]\<rparr>"
  "loop_body unordered_chain example_lib example_bp example_cfg resumed_state =
     (None,
      resumed_state\<lparr>blocks := [bad_block, block_100], net_calls := 1, requests := [(104, 2)],
        lastProcessed := 100, totalProcessed := 1, totalInserts := 0,
        progress := [percentage 100 100 105], variance := 5\<rparr>)"
proof -
  have m: "1 \<le> MaxRetries example_cfg" by (simp add: example_cfg_def DefaultConfig_def)
  note f = resumed_state_fields
  have b: "block_range unordered_chain (net_calls resumed_state) (lastProcessed resumed_state + 1)
      (batch_count example_cfg (currentBlock resumed_state) (lastProcessed resumed_state + 1)) =
      Inr [bad_block, block_100]"
    by (simp add: unordered_chain_def f)
  show a: "after_fetch unordered_chain example_cfg resumed_state =
     resumed_state\<lparr>blocks := [bad_block, block_100], net_calls := 1, requests := [(104, 2)]\<rparr>"
    using loop_body_first_try(1) [OF m b] by (simp add: f example_counts)
  show "loop_body unordered_chain example_lib example_bp example_cfg resumed_state =
     (None,
      resumed_state\<lparr>blocks := [bad_block, block_100], net_calls := 1, requests := [(104, 2)],
        lastProcessed := 100, totalProcessed := 1, totalInserts := 0,
        progress := [percentage 100 100 105], variance := 5\<rparr>)"
    unfolding loop_body_first_try(2) [OF m b] a
    by (simp only: bad_block_skipped block_100_processed) (simp add: f)
qed

text \<open>
  C10 as stated fails when the API answers out of order. The run resumed at block 103
  requests two blocks from 104; the block at position 0 fails, the block at position 1
  is processed and its identifier holds the height 100: \<open>lastProcessed\<close> goes to 100, and
  the next pass requests the five blocks from 101, the failed block 104 among them.
\<close>

theorem unordered_answer_refetched:
  "block_fails unordered_chain example_lib example_bp example_cfg resumed_state 0 \<and>
   block_succeeds unordered_chain example_lib example_bp example_cfg resumed_state 1 \<and>
   fst (loop_body unordered_chain example_lib example_bp example_cfg resumed_state) = None \<and>
   lastProcessed
     (snd (loop_body unordered_chain example_lib example_bp example_cfg resumed_state)) = 100 \<and>
   requests (snd (main_loop 1 unordered_chain example_lib example_bp example_cfg
     (snd (loop_body unordered_chain example_lib example_bp example_cfg resumed_state)))) =
     [(104, 2), (101, 5)]"
proof -
  let ?s' = "resumed_state\<lparr>blocks := [bad_block, block_100], net_calls := 1,
        requests := [(104, 2)], lastProcessed := 100, totalProcessed := 1, totalInserts := 0,
        progress := [percentage 100 100 105], variance := 5\<rparr>"
  have m: "1 \<le> MaxRetries example_cfg" by (simp add: example_cfg_def DefaultConfig_def)
  have h3: "block_fails unordered_chain example_lib example_bp example_cfg resumed_state 0"
    by (simp add: block_fails_def block_outcome_def resumed_state_fetch(1) bad_block_fails
          block_facts(5))
  have h4: "block_succeeds unordered_chain example_lib example_bp example_cfg resumed_state 1"
    by (simp add: block_succeeds_def block_outcome_def before_block_def resumed_state_fetch(1)
          bad_block_fails block_100_ok block_facts(5,6))
  have b: "block_range unordered_chain (net_calls ?s') (lastProcessed ?s' + 1)
      (batch_count example_cfg (currentBlock ?s') (lastProcessed ?s' + 1)) = Inr []"
    by (simp add: unordered_chain_def)
  have "requests (snd (loop_body unordered_chain example_lib example_bp example_cfg ?s')) =
      [(104, 2), (101, 5)]"
    unfolding loop_body_first_try(2) [OF m b] loop_body_first_try(1) [OF m b]
    by (simp add: resumed_state_fields example_counts)
  then have "requests (snd (main_loop 1 unordered_chain example_lib example_bp example_cfg ?s'))
      = [(104, 2), (101, 5)]"
    using main_loop_one_pass [of ?s' unordered_chain example_lib example_bp example_cfg]
    by simp
  then show ?thesis
    using h3 h4 by (simp add: resumed_state_fetch(2))
qed

end
